theory Spec2Isabelle
  imports Main "HOL-Library.Sublist"
begin

section \<open>Python values and strings\<close>

text \<open>
  Values produced by \<^verbatim>\<open>json.load\<close> / \<^verbatim>\<open>json.loads\<close>: \<^verbatim>\<open>None\<close>, booleans, integers,
  floats, strings, lists and dicts.  A dict is an association list whose first binding of a
  key is the one that counts.  A float is kept as mantissa and binary exponent; the program
  only ever asks whether it is zero.  Strings are lists of 8-bit characters, read as code
  points below 256.
\<close>

datatype json =
    JNull
  | JBool bool
  | JInt int
  | JFloat int int
  | JString string
  | JArray "json list"
  | JObject "(string \<times> json) list"

text \<open>Python truthiness (\<^verbatim>\<open>if value:\<close>).\<close>

fun truthy :: "json \<Rightarrow> bool" where
  "truthy JNull = False"
| "truthy (JBool b) = b"
| "truthy (JInt n) = (n \<noteq> 0)"
| "truthy (JFloat m e) = (m \<noteq> 0)"
| "truthy (JString s) = (s \<noteq> [])"
| "truthy (JArray xs) = (xs \<noteq> [])"
| "truthy (JObject kvs) = (kvs \<noteq> [])"

text \<open>Exceptions and process exits.  \<^verbatim>\<open>fatal\<close> logs one error line and calls
  \<^verbatim>\<open>sys.exit(1)\<close>; the diagnostics are listed with the rule number they print, if any.\<close>

datatype fatal_msg =
    NotAnArray
  | UnexpectedKeys nat
  | BadStringValue string nat
  | NotNonEmptyObject nat
  | FakeKeyNotStrings nat
  | FakeKeyBlankName
  | FakeKeyBadAction "nat option"
  | SetMouseNotInts nat
  | UnknownLayer nat
  | ConnectionError

datatype exc =
    SystemExit fatal_msg
  | AttributeError
  | ValueError
  | TypeError
  | KeyError
  | ReError
  | NotModelled

text \<open>The rule number a diagnostic prints.\<close>

fun rule_no_of :: "fatal_msg \<Rightarrow> nat option" where
  "rule_no_of NotAnArray = None"
| "rule_no_of (UnexpectedKeys n) = Some n"
| "rule_no_of (BadStringValue k n) = Some n"
| "rule_no_of (NotNonEmptyObject n) = Some n"
| "rule_no_of (FakeKeyNotStrings n) = Some n"
| "rule_no_of FakeKeyBlankName = None"
| "rule_no_of (FakeKeyBadAction r) = r"
| "rule_no_of (SetMouseNotInts n) = Some n"
| "rule_no_of (UnknownLayer n) = Some n"
| "rule_no_of ConnectionError = None"

text \<open>\<^verbatim>\<open>d.get(key, default)\<close>: only a dict has the method.\<close>

fun py_get :: "json \<Rightarrow> string \<Rightarrow> json \<Rightarrow> exc + json" where
  "py_get (JObject kvs) k d = Inr (case map_of kvs k of None \<Rightarrow> d | Some v \<Rightarrow> v)"
| "py_get _ k d = Inl AttributeError"

definition newline :: char where
  "newline = CHR 0x0A"

text \<open>\<^verbatim>\<open>str.isspace\<close> on code points below 256.\<close>

definition isspace :: "char \<Rightarrow> bool" where
  "isspace c = (of_char c \<in> {9, 10, 11, 12, 13, 28, 29, 30, 31, 32, 133, 160 :: nat})"

definition strip :: "string \<Rightarrow> string" where
  "strip s = rev (dropWhile isspace (rev (dropWhile isspace s)))"

text \<open>\<^verbatim>\<open>utils.is_blank\<close>: \<^verbatim>\<open>not s.strip()\<close>.\<close>

definition is_blank :: "string \<Rightarrow> bool" where
  "is_blank s = (strip s = [])"

text \<open>\<^verbatim>\<open>s.split("\n")\<close>: never empty, the last piece is what follows the last newline.\<close>

fun split_nl :: "string \<Rightarrow> string list" where
  "split_nl [] = [[]]"
| "split_nl (c # cs) =
     (if c = newline then [] # split_nl cs
      else (case split_nl cs of [] \<Rightarrow> [[c]] | l # ls \<Rightarrow> (c # l) # ls))"

section \<open>The Kanata TCP client\<close>

text \<open>
  The socket is the environment.  \<^verbatim>\<open>incoming\<close> scripts what the successive calls of
  \<^verbatim>\<open>recv\<close> deliver: a chunk of decoded text (the empty chunk is end of stream) or a
  \<^verbatim>\<open>socket.timeout\<close>; once the script is used up the peer is silent and every
  \<^verbatim>\<open>recv\<close> times out.  \<^verbatim>\<open>sent\<close> records the command of every \<^verbatim>\<open>sendall\<close>, each standing
  for the line \<^verbatim>\<open>json.dumps(cmd) + "\n"\<close>.  \<^verbatim>\<open>reachable\<close> says whether \<^verbatim>\<open>connect\<close>
  succeeds.  Writes are taken to succeed and chunks to decode.
\<close>

datatype recv = Chunk string | Timeout

datatype request =
    RequestCurrentLayerName
  | RequestCurrentLayerInfo
  | RequestLayerNames
  | ChangeLayer string
  | ActOnFakeKey string string
  | SetMouse json json

record kanata =
  buffer :: string
  connected :: bool
  reachable :: bool
  incoming :: "recv list"
  sent :: "request list"

text \<open>The loop of \<^verbatim>\<open>_flush_buffer\<close>: read until a timeout or the end of the stream.\<close>

fun drain :: "recv list \<Rightarrow> string \<Rightarrow> recv list \<times> string" where
  "drain [] buf = ([], buf)"
| "drain (Timeout # rest) buf = (rest, buf)"
| "drain (Chunk c # rest) buf = (if c = [] then (rest, buf) else drain rest (buf @ c))"

definition flush_buffer :: "kanata \<Rightarrow> kanata" where
  "flush_buffer k =
     (case drain (incoming k) (buffer k) of
        (rest, buf) \<Rightarrow>
          k\<lparr>incoming := rest,
            buffer := (if newline \<in> set buf then last (split_nl buf) else buf)\<rparr>)"

text \<open>The receive loop of \<^verbatim>\<open>send\<close>; the flag says that \<^verbatim>\<open>recv\<close> timed out.\<close>

fun recv_line :: "recv list \<Rightarrow> string \<Rightarrow> recv list \<times> string \<times> bool" where
  "recv_line [] buf = ([], buf, newline \<notin> set buf)"
| "recv_line (Timeout # rest) buf =
     (if newline \<in> set buf then (Timeout # rest, buf, False) else (rest, buf, True))"
| "recv_line (Chunk c # rest) buf =
     (if newline \<in> set buf then (Chunk c # rest, buf, False)
      else if c = [] then (rest, buf, False)
      else recv_line rest (buf @ c))"

text \<open>The first line that is not blank, stripped.\<close>

fun first_response :: "string list \<Rightarrow> string option" where
  "first_response [] = None"
| "first_response (l # ls) = (if strip l \<noteq> [] then Some (strip l) else first_response ls)"

text \<open>The body of \<^verbatim>\<open>send\<close> once the connection is up.\<close>

definition send_connected :: "kanata \<Rightarrow> request \<Rightarrow> string option \<times> kanata" where
  "send_connected k cmd =
     (let k1 = flush_buffer k;
          k2 = k1\<lparr>sent := sent k1 @ [cmd]\<rparr>
      in case recv_line (incoming k2) (buffer k2) of
           (rest, buf, timed_out) \<Rightarrow>
             if timed_out then (None, k2\<lparr>incoming := rest, buffer := buf\<rparr>)
             else (first_response (butlast (split_nl buf)),
                   k2\<lparr>incoming := rest, buffer := last (split_nl buf)\<rparr>))"

text \<open>\<^verbatim>\<open>_parse_json_response\<close>; \<^verbatim>\<open>loads\<close> is \<^verbatim>\<open>json.loads\<close>, with \<^verbatim>\<open>None\<close> for a
  \<^verbatim>\<open>JSONDecodeError\<close>.\<close>

definition parse_json_response :: "(string \<Rightarrow> json option) \<Rightarrow> string option \<Rightarrow> json" where
  "parse_json_response loads response =
     (case response of
        None \<Rightarrow> JObject []
      | Some r \<Rightarrow> if r = [] then JObject []
                  else (case loads r of None \<Rightarrow> JObject [] | Some v \<Rightarrow> v))"

text \<open>What \<^verbatim>\<open>get_current_layer_name\<close> makes of the response.\<close>

definition layer_name_of :: "(string \<Rightarrow> json option) \<Rightarrow> string option \<Rightarrow> exc + json" where
  "layer_name_of loads response =
     (case py_get (parse_json_response loads response) ''CurrentLayerName'' (JObject []) of
        Inl e \<Rightarrow> Inl e
      | Inr inner \<Rightarrow> py_get inner ''name'' JNull)"

text \<open>\<^verbatim>\<open>_connect\<close>: fatal when the daemon cannot be reached; otherwise the dummy query,
  whose answer is dropped but whose \<^verbatim>\<open>AttributeError\<close> is not caught.\<close>

definition connect :: "(string \<Rightarrow> json option) \<Rightarrow> kanata \<Rightarrow> exc + kanata" where
  "connect loads k =
     (if \<not> reachable k then Inl (SystemExit ConnectionError)
      else (case send_connected (k\<lparr>connected := True\<rparr>) RequestCurrentLayerName of
              (response, k1) \<Rightarrow>
                (case layer_name_of loads response of
                   Inl e \<Rightarrow> Inl e
                 | Inr _ \<Rightarrow> Inr k1)))"

definition send :: "(string \<Rightarrow> json option) \<Rightarrow> kanata \<Rightarrow> request \<Rightarrow> exc + string option \<times> kanata" where
  "send loads k cmd =
     (if connected k then Inr (send_connected k cmd)
      else (case connect loads k of
              Inl e \<Rightarrow> Inl e
            | Inr k1 \<Rightarrow> Inr (send_connected k1 cmd)))"

definition get_current_layer_name :: "(string \<Rightarrow> json option) \<Rightarrow> kanata \<Rightarrow> exc + json \<times> kanata" where
  "get_current_layer_name loads k =
     (case send loads k RequestCurrentLayerName of
        Inl e \<Rightarrow> Inl e
      | Inr (response, k1) \<Rightarrow>
          (case layer_name_of loads response of
             Inl e \<Rightarrow> Inl e
           | Inr name \<Rightarrow> Inr (name, k1)))"

text \<open>\<^verbatim>\<open>change_layer\<close>: the answer to the \<^verbatim>\<open>ChangeLayer\<close> request is parsed and dropped.\<close>

definition change_layer :: "(string \<Rightarrow> json option) \<Rightarrow> kanata \<Rightarrow> string \<Rightarrow> exc + bool \<times> kanata" where
  "change_layer loads k layer =
     (case get_current_layer_name loads k of
        Inl e \<Rightarrow> Inl e
      | Inr (name, k1) \<Rightarrow>
          if JString layer = name then Inr (False, k1)
          else (case send loads k1 (ChangeLayer layer) of
                  Inl e \<Rightarrow> Inl e
                | Inr (response, k2) \<Rightarrow> Inr (True, k2)))"

definition get_layer_names :: "(string \<Rightarrow> json option) \<Rightarrow> kanata \<Rightarrow> exc + json \<times> kanata" where
  "get_layer_names loads k =
     (case send loads k RequestLayerNames of
        Inl e \<Rightarrow> Inl e
      | Inr (response, k1) \<Rightarrow>
          (case py_get (parse_json_response loads response) ''LayerNames'' (JObject []) of
             Inl e \<Rightarrow> Inl e
           | Inr inner \<Rightarrow>
               (case py_get inner ''names'' JNull of
                  Inl e \<Rightarrow> Inl e
                | Inr names \<Rightarrow> Inr (names, k1))))"

text \<open>Tuple unpacking \<^verbatim>\<open>a, b = value\<close>: a list or a string of two items, or a dict of two
  keys; any other length is a \<^verbatim>\<open>ValueError\<close>, a value that cannot be iterated a
  \<^verbatim>\<open>TypeError\<close>.\<close>

fun dict_keys :: "(string \<times> json) list \<Rightarrow> string list" where
  "dict_keys [] = []"
| "dict_keys ((k, v) # kvs) = k # filter (\<lambda>k'. k' \<noteq> k) (dict_keys kvs)"

fun unpack2 :: "json \<Rightarrow> exc + json \<times> json" where
  "unpack2 (JArray [a, b]) = Inr (a, b)"
| "unpack2 (JArray xs) = Inl ValueError"
| "unpack2 (JString [a, b]) = Inr (JString [a], JString [b])"
| "unpack2 (JString s) = Inl ValueError"
| "unpack2 (JObject kvs) =
     (case dict_keys kvs of [k1, k2] \<Rightarrow> Inr (JString k1, JString k2) | _ \<Rightarrow> Inl ValueError)"
| "unpack2 _ = Inl TypeError"

text \<open>\<^verbatim>\<open>str.capitalize\<close>, exact on ASCII: the first character in upper case, the others in
  lower case.  Characters outside ASCII are left as they are; none of them is mapped to an
  ASCII letter by Python either, so membership in the set of actions is not affected.\<close>

definition lower_char :: "char \<Rightarrow> char" where
  "lower_char c = (let n = of_char c :: nat in if 65 \<le> n \<and> n \<le> 90 then char_of (n + 32) else c)"

definition upper_char :: "char \<Rightarrow> char" where
  "upper_char c = (let n = of_char c :: nat in if 97 \<le> n \<and> n \<le> 122 then char_of (n - 32) else c)"

fun capitalize :: "string \<Rightarrow> string" where
  "capitalize [] = []"
| "capitalize (c # cs) = upper_char c # map lower_char cs"

definition valid_actions :: "string set" where
  "valid_actions = {''Press'', ''Release'', ''Tap'', ''Toggle''}"

text \<open>\<^verbatim>\<open>utils.validate_fake_key\<close>.  The diagnostic carries the rule number only when
  \<^verbatim>\<open>rule_no\<close> is truthy; the one for a blank name never does.  \<^verbatim>\<open>is_blank\<close> and
  \<^verbatim>\<open>capitalize\<close> are string methods, absent from any other value.\<close>

definition validate_fake_key :: "json \<Rightarrow> nat option \<Rightarrow> exc + string \<times> string" where
  "validate_fake_key fake_key rule_no =
     (case unpack2 fake_key of
        Inl e \<Rightarrow> Inl e
      | Inr (name, action) \<Rightarrow>
          (case name of
             JString n \<Rightarrow>
               if is_blank n then Inl (SystemExit FakeKeyBlankName)
               else (case action of
                       JString a \<Rightarrow>
                         if capitalize a \<notin> valid_actions
                         then Inl (SystemExit (FakeKeyBadAction
                                (case rule_no of None \<Rightarrow> None
                                 | Some r \<Rightarrow> if r \<noteq> 0 then Some r else None)))
                         else Inr (n, capitalize a)
                     | _ \<Rightarrow> Inl AttributeError)
           | _ \<Rightarrow> Inl AttributeError))"

definition act_on_fake_key :: "(string \<Rightarrow> json option) \<Rightarrow> kanata \<Rightarrow> json \<Rightarrow> exc + kanata" where
  "act_on_fake_key loads k fake_key =
     (case validate_fake_key fake_key None of
        Inl e \<Rightarrow> Inl e
      | Inr (name, action) \<Rightarrow>
          (case send loads k (ActOnFakeKey name action) of
             Inl e \<Rightarrow> Inl e
           | Inr (response, k1) \<Rightarrow> Inr k1))"

definition set_mouse :: "(string \<Rightarrow> json option) \<Rightarrow> kanata \<Rightarrow> json \<Rightarrow> exc + kanata" where
  "set_mouse loads k pos =
     (case unpack2 pos of
        Inl e \<Rightarrow> Inl e
      | Inr (x, y) \<Rightarrow>
          (case send loads k (SetMouse x y) of
             Inl e \<Rightarrow> Inl e
           | Inr (response, k1) \<Rightarrow> Inr k1))"

section \<open>Regular expressions\<close>

text \<open>
  \<^verbatim>\<open>re.match\<close> of the Python standard library, on the part of the pattern syntax built from
  ordinary characters, the dot, the star and parentheses.  A pattern that uses any other
  special character is outside this part and is answered \<^const>\<open>NotModelled\<close>.  As in
  Python the pattern is read from left to right: a star with nothing to repeat, a star
  after a star, a closing parenthesis that closes nothing and a group left open at the end
  are compilation errors (\<^verbatim>\<open>re.error\<close>); the dot stands for any character but the newline;
  and \<^verbatim>\<open>re.match\<close> succeeds when the pattern matches some prefix of the subject.
\<close>

datatype re = Nul | Eps | Lit char | Dot | Cat re re | Alt re re | Star re

definition other_special :: "char set" where
  "other_special = insert (CHR 0x5C) (set ''^$+?{}[]|'')"

fun cat_list :: "re list \<Rightarrow> re" where
  "cat_list [] = Eps"
| "cat_list (r # rs) = Cat r (cat_list rs)"

text \<open>The items read so far are kept in reverse, with one such list for every group that
  is still open.\<close>

fun parse_re :: "re list \<Rightarrow> re list list \<Rightarrow> string \<Rightarrow> exc + re" where
  "parse_re cur stack [] = (if stack = [] then Inr (cat_list (rev cur)) else Inl ReError)"
| "parse_re cur stack (c # cs) =
     (if c = CHR ''('' then parse_re [] (cur # stack) cs
      else if c = CHR '')'' then
        (case stack of
           [] \<Rightarrow> Inl ReError
         | outer # stack' \<Rightarrow> parse_re (cat_list (rev cur) # outer) stack' cs)
      else if c = CHR ''*'' then
        (case cur of
           [] \<Rightarrow> Inl ReError
         | Star r # items \<Rightarrow> Inl ReError
         | r # items \<Rightarrow> parse_re (Star r # items) stack cs)
      else if c = CHR ''.'' then parse_re (Dot # cur) stack cs
      else if c \<in> other_special then Inl NotModelled
      else parse_re (Lit c # cur) stack cs)"

fun nullable :: "re \<Rightarrow> bool" where
  "nullable Nul = False"
| "nullable Eps = True"
| "nullable (Lit c) = False"
| "nullable Dot = False"
| "nullable (Cat r s) = (nullable r \<and> nullable s)"
| "nullable (Alt r s) = (nullable r \<or> nullable s)"
| "nullable (Star r) = True"

text \<open>What is left of the pattern once it has read the character.\<close>

fun deriv :: "char \<Rightarrow> re \<Rightarrow> re" where
  "deriv c Nul = Nul"
| "deriv c Eps = Nul"
| "deriv c (Lit d) = (if c = d then Eps else Nul)"
| "deriv c Dot = (if c = newline then Nul else Eps)"
| "deriv c (Cat r s) =
     (if nullable r then Alt (Cat (deriv c r) s) (deriv c s) else Cat (deriv c r) s)"
| "deriv c (Alt r s) = Alt (deriv c r) (deriv c s)"
| "deriv c (Star r) = Cat (deriv c r) (Star r)"

fun match_prefix :: "re \<Rightarrow> string \<Rightarrow> bool" where
  "match_prefix r [] = nullable r"
| "match_prefix r (c # cs) = (nullable r \<or> match_prefix (deriv c r) cs)"

definition re_match :: "string \<Rightarrow> string \<Rightarrow> exc + bool" where
  "re_match pattern subject =
     (case parse_re [] [] pattern of
        Inl e \<Rightarrow> Inl e
      | Inr r \<Rightarrow> Inr (match_prefix r subject))"

text \<open>The words of a pattern, for stating what \<^const>\<open>match_prefix\<close> decides: \<^verbatim>\<open>star_of A\<close>
  holds the concatenations of finitely many words of \<^verbatim>\<open>A\<close>.\<close>

inductive_set star_of :: "string set \<Rightarrow> string set" for A :: "string set" where
  empty: "[] \<in> star_of A"
| step: "u \<in> A \<Longrightarrow> v \<in> star_of A \<Longrightarrow> u @ v \<in> star_of A"

fun lang :: "re \<Rightarrow> string set" where
  "lang Nul = {}"
| "lang Eps = {[]}"
| "lang (Lit c) = {[c]}"
| "lang Dot = {[c] | c. c \<noteq> newline}"
| "lang (Cat r s) = {u @ v | u v. u \<in> lang r \<and> v \<in> lang s}"
| "lang (Alt r s) = lang r \<union> lang s"
| "lang (Star r) = star_of (lang r)"

text \<open>A string without any character that is special in a pattern.\<close>

definition special_chars :: "char set" where
  "special_chars = set ''().*'' \<union> other_special"

definition plain :: "string \<Rightarrow> bool" where
  "plain s = list_all (\<lambda>c. c \<notin> special_chars) s"

section \<open>The configuration\<close>

definition allowed_rule_keys :: "string set" where
  "allowed_rule_keys = {''class'', ''title'', ''layer'', ''fake_key'', ''set_mouse'', ''cmd''}"

fun is_str :: "json \<Rightarrow> bool" where
  "is_str (JString s) = True"
| "is_str _ = False"

text \<open>\<^verbatim>\<open>isinstance(k, int)\<close>: \<^verbatim>\<open>bool\<close> is a subclass of \<^verbatim>\<open>int\<close>.\<close>

fun is_int :: "json \<Rightarrow> bool" where
  "is_int (JInt n) = True"
| "is_int (JBool b) = True"
| "is_int _ = False"

text \<open>The loop over \<^verbatim>\<open>["class", "title", "layer", "cmd"]\<close>.\<close>

text \<open>\<^verbatim>\<open>not isinstance(value, str) or utils.is_blank(value)\<close>.\<close>

fun not_str_or_blank :: "json \<Rightarrow> bool" where
  "not_str_or_blank (JString s) = is_blank s"
| "not_str_or_blank _ = True"

fun check_strings :: "string list \<Rightarrow> (string \<times> json) list \<Rightarrow> nat \<Rightarrow> exc option" where
  "check_strings [] kvs rule_no = None"
| "check_strings (key # keys) kvs rule_no =
     (case map_of kvs key of
        None \<Rightarrow> check_strings keys kvs rule_no
      | Some v \<Rightarrow>
          if v = JBool False \<or> v = JNull then check_strings keys kvs rule_no
          else if not_str_or_blank v then Some (SystemExit (BadStringValue key rule_no))
          else check_strings keys kvs rule_no)"

definition check_fake_key :: "json \<Rightarrow> nat \<Rightarrow> exc option" where
  "check_fake_key fk rule_no =
     (if truthy fk then
        (case fk of
           JArray xs \<Rightarrow>
             if list_all is_str xs then
               (case validate_fake_key fk (Some rule_no) of Inl e \<Rightarrow> Some e | Inr _ \<Rightarrow> None)
             else Some (SystemExit (FakeKeyNotStrings rule_no))
         | _ \<Rightarrow> Some (SystemExit (FakeKeyNotStrings rule_no)))
      else None)"

definition check_set_mouse :: "json \<Rightarrow> nat \<Rightarrow> exc option" where
  "check_set_mouse sm rule_no =
     (if truthy sm then
        (case sm of
           JArray xs \<Rightarrow>
             if list_all is_int xs then None else Some (SystemExit (SetMouseNotInts rule_no))
         | _ \<Rightarrow> Some (SystemExit (SetMouseNotInts rule_no)))
      else None)"

text \<open>\<^verbatim>\<open>layer not in kanata_layers\<close> for a string \<^verbatim>\<open>layer\<close>: membership in a list, containment
  in a string, a key of a dict; nothing else supports \<^verbatim>\<open>in\<close>.\<close>

fun str_in :: "string \<Rightarrow> json \<Rightarrow> exc + bool" where
  "str_in s (JArray xs) = Inr (JString s \<in> set xs)"
| "str_in s (JString t) = Inr (sublist s t)"
| "str_in s (JObject kvs) = Inr (s \<in> fst ` set kvs)"
| "str_in s _ = Inl TypeError"

definition check_layer :: "json \<Rightarrow> json \<Rightarrow> nat \<Rightarrow> exc option" where
  "check_layer kanata_layers layer rule_no =
     (if truthy layer then
        (case layer of
           JString s \<Rightarrow>
             (case str_in s kanata_layers of
                Inl e \<Rightarrow> Some e
              | Inr found \<Rightarrow> if found then None else Some (SystemExit (UnknownLayer rule_no)))
         | _ \<Rightarrow> Some NotModelled)
      else None)"

text \<open>The body of the loop of \<^verbatim>\<open>_validate\<close> for one rule, in the order of the source:
  \<^verbatim>\<open>rule.get\<close> comes first and fails on anything that is not a dict, so the later test
  \<^verbatim>\<open>not isinstance(rule, dict) or not rule\<close> is reached by dicts only.  The result is the
  exception that ends validation, if any.\<close>

fun validate_rule :: "json \<Rightarrow> nat \<Rightarrow> json \<Rightarrow> exc option" where
  "validate_rule kanata_layers rule_no (JObject kvs) =
     (if \<not> fst ` set kvs \<subseteq> allowed_rule_keys then Some (SystemExit (UnexpectedKeys rule_no))
      else (case check_strings [''class'', ''title'', ''layer'', ''cmd''] kvs rule_no of
              Some e \<Rightarrow> Some e
            | None \<Rightarrow>
                if kvs = [] then Some (SystemExit (NotNonEmptyObject rule_no))
                else (case check_fake_key
                             (case map_of kvs ''fake_key'' of None \<Rightarrow> JNull | Some v \<Rightarrow> v) rule_no of
                        Some e \<Rightarrow> Some e
                      | None \<Rightarrow>
                          (case check_set_mouse
                                  (case map_of kvs ''set_mouse'' of None \<Rightarrow> JNull | Some v \<Rightarrow> v)
                                  rule_no of
                             Some e \<Rightarrow> Some e
                           | None \<Rightarrow>
                               check_layer kanata_layers
                                 (case map_of kvs ''layer'' of None \<Rightarrow> JNull | Some v \<Rightarrow> v)
                                 rule_no))))"
| "validate_rule kanata_layers rule_no _ = Some AttributeError"

text \<open>The loop; \<^verbatim>\<open>i\<close> is the index of \<^verbatim>\<open>enumerate\<close>.\<close>

fun validate_rules :: "json \<Rightarrow> nat \<Rightarrow> json list \<Rightarrow> exc + unit" where
  "validate_rules kanata_layers i [] = Inr ()"
| "validate_rules kanata_layers i (rule # rules) =
     (case validate_rule kanata_layers (i + 1) rule of
        Some e \<Rightarrow> Inl e
      | None \<Rightarrow> validate_rules kanata_layers (i + 1) rules)"

text \<open>\<^verbatim>\<open>Config._validate\<close>, given what \<^verbatim>\<open>get_layer_names\<close> returned.\<close>

definition validate :: "json \<Rightarrow> json \<Rightarrow> exc + unit" where
  "validate kanata_layers rules =
     (case rules of
        JArray rs \<Rightarrow> validate_rules kanata_layers 0 rs
      | _ \<Rightarrow> Inl (SystemExit NotAnArray))"

record win_info =
  cls :: string
  title :: string

text \<open>\<^verbatim>\<open>to_pattern\<close>.  The value is formatted by an f-string; what a validated rule can hold
  besides a string is \<^verbatim>\<open>False\<close> and \<^verbatim>\<open>None\<close>, the formatting of numbers, lists and dicts is
  not modelled.\<close>

fun to_pattern :: "json \<Rightarrow> exc + string" where
  "to_pattern (JString s) = Inr (if s \<noteq> ''*'' then ''.*'' @ s @ ''.*'' else ''.*'')"
| "to_pattern (JBool b) = Inr (''.*'' @ (if b then ''True'' else ''False'') @ ''.*'')"
| "to_pattern JNull = Inr ''.*None.*''"
| "to_pattern _ = Inl NotModelled"

text \<open>\<^verbatim>\<open>rule.get(key, "*")\<close>.\<close>

definition field_value :: "(string \<times> json) list \<Rightarrow> string \<Rightarrow> json" where
  "field_value kvs key = (case map_of kvs key of None \<Rightarrow> JString ''*'' | Some v \<Rightarrow> v)"

text \<open>One field of one rule: the pattern of the rule's value against the window's string.\<close>

definition field_matches :: "json \<Rightarrow> string \<Rightarrow> exc + bool" where
  "field_matches v subject =
     (case to_pattern v of Inl e \<Rightarrow> Inl e | Inr p \<Rightarrow> re_match p subject)"

text \<open>The test of the loop of \<^verbatim>\<open>detect_rule\<close>; \<^verbatim>\<open>and\<close> evaluates the title only when the
  class has matched.\<close>

fun rule_matches :: "json \<Rightarrow> win_info \<Rightarrow> exc + bool" where
  "rule_matches (JObject kvs) w =
     (case to_pattern (field_value kvs ''class'') of
        Inl e \<Rightarrow> Inl e
      | Inr pattern_class \<Rightarrow>
          (case to_pattern (field_value kvs ''title'') of
             Inl e \<Rightarrow> Inl e
           | Inr pattern_title \<Rightarrow>
               (case re_match pattern_class (cls w) of
                  Inl e \<Rightarrow> Inl e
                | Inr False \<Rightarrow> Inr False
                | Inr True \<Rightarrow> re_match pattern_title (title w))))"
| "rule_matches _ w = Inl AttributeError"

fun detect_rule :: "json list \<Rightarrow> win_info \<Rightarrow> exc + json option" where
  "detect_rule [] w = Inr None"
| "detect_rule (rule # rules) w =
     (case rule_matches rule w of
        Inl e \<Rightarrow> Inl e
      | Inr True \<Rightarrow> Inr (Some rule)
      | Inr False \<Rightarrow> detect_rule rules w)"

section \<open>The focus handler\<close>

text \<open>
  The state of \<^verbatim>\<open>on_focus_event\<close>: the two cached strings (\<^verbatim>\<open>None\<close> at the start), the
  client, the commands handed to \<^verbatim>\<open>run_cmd_bg\<close> and the windows written by
  \<^verbatim>\<open>log.info("current_win: ...")\<close>.  The window is what \<^verbatim>\<open>get_active_win\<close> returned.
\<close>

record handler =
  last_win_title :: "string option"
  last_win_class :: "string option"
  client :: kanata
  commands :: "json list"
  logged :: "win_info list"

text \<open>The three effects that follow a layer switch.\<close>

definition side_effects :: "(string \<Rightarrow> json option) \<Rightarrow> (string \<times> json) list \<Rightarrow> handler \<Rightarrow> exc + handler" where
  "side_effects loads kvs h =
     (let rule_cmd = (case map_of kvs ''cmd'' of None \<Rightarrow> JNull | Some v \<Rightarrow> v);
          fake_key = (case map_of kvs ''fake_key'' of None \<Rightarrow> JNull | Some v \<Rightarrow> v);
          mouse = (case map_of kvs ''set_mouse'' of None \<Rightarrow> JNull | Some v \<Rightarrow> v);
          h1 = (if truthy rule_cmd then h\<lparr>commands := commands h @ [rule_cmd]\<rparr> else h)
      in case (if truthy fake_key
               then (case act_on_fake_key loads (client h1) fake_key of
                       Inl e \<Rightarrow> Inl e
                     | Inr k \<Rightarrow> Inr (h1\<lparr>client := k\<rparr>))
               else Inr h1) of
           Inl e \<Rightarrow> Inl e
         | Inr h2 \<Rightarrow>
             if truthy mouse
             then (case set_mouse loads (client h2) mouse of
                     Inl e \<Rightarrow> Inl e
                   | Inr k \<Rightarrow> Inr (h2\<lparr>client := k\<rparr>))
             else Inr h2)"

text \<open>\<^verbatim>\<open>on_focus_event\<close>.  A layer that is truthy and not a string cannot come out of a
  validated configuration and is not modelled.\<close>

definition on_focus_event :: "(string \<Rightarrow> json option) \<Rightarrow> json list \<Rightarrow> handler \<Rightarrow> win_info \<Rightarrow> exc + handler" where
  "on_focus_event loads rules h w =
     (if Some (title w) \<noteq> last_win_title h \<or> Some (cls w) \<noteq> last_win_class h then
        (let h1 = h\<lparr>logged := logged h @ [w]\<rparr>
         in case detect_rule rules w of
              Inl e \<Rightarrow> Inl e
            | Inr None \<Rightarrow> Inr h1
            | Inr (Some matched_rule) \<Rightarrow>
                if \<not> truthy matched_rule then Inr h1
                else
                  (let h2 = h1\<lparr>last_win_title := Some (title w), last_win_class := Some (cls w)\<rparr>
                   in case matched_rule of
                        JObject kvs \<Rightarrow>
                          (case map_of kvs ''layer'' of
                             None \<Rightarrow> Inr h2
                           | Some rule_layer \<Rightarrow>
                               if \<not> truthy rule_layer then Inr h2
                               else
                                 (case rule_layer of
                                    JString layer \<Rightarrow>
                                      (case change_layer loads (client h2) layer of
                                         Inl e \<Rightarrow> Inl e
                                       | Inr (ok, k) \<Rightarrow>
                                           if ok then side_effects loads kvs (h2\<lparr>client := k\<rparr>)
                                           else Inr (h2\<lparr>client := k\<rparr>))
                                  | _ \<Rightarrow> Inl NotModelled))
                      | _ \<Rightarrow> Inl AttributeError))
      else Inr h)"

section \<open>Example inputs\<close>

text \<open>A connected client holding an unfinished fragment.  The daemon has already sent a
  stale line and the start of another; after the short wait of the flush it sends the rest,
  a second line and the start of a third.\<close>

definition busy_client :: kanata where
  "busy_client =
     \<lparr>buffer = ''old'', connected = True, reachable = True,
      incoming = [Chunk (''stale'' @ [newline] @ ''fr''), Timeout,
                  Chunk (''ag'' @ [newline] @ ''ok'' @ [newline] @ ''part'')],
      sent = []\<rparr>"

text \<open>The line with which the daemon answers \<^verbatim>\<open>RequestCurrentLayerName\<close>, and the value of
  \<^verbatim>\<open>json.loads\<close> on the two such lines that the examples receive; no other line is decoded
  in them.\<close>

definition name_reply :: "string \<Rightarrow> string" where
  \<open>name_reply n = ''{"CurrentLayerName":{"name":"'' @ n @ ''"}}''\<close>

definition loads_reply :: "string \<Rightarrow> json option" where
  "loads_reply s =
     (if s = name_reply ''base''
      then Some (JObject [(''CurrentLayerName'', JObject [(''name'', JString ''base'')])])
      else if s = name_reply ''nav''
      then Some (JObject [(''CurrentLayerName'', JObject [(''name'', JString ''nav'')])])
      else None)"

text \<open>A connected client whose daemon reports the layer \<^verbatim>\<open>base\<close>; the answer arrives after
  the flush has timed out.\<close>

definition idle_client :: kanata where
  "idle_client =
     \<lparr>buffer = [], connected = True, reachable = True,
      incoming = [Timeout, Chunk (name_reply ''base'' @ [newline])], sent = []\<rparr>"

text \<open>A daemon on layer \<^verbatim>\<open>nav\<close> that does not acknowledge \<^verbatim>\<open>ChangeLayer\<close> and reports
  \<^verbatim>\<open>base\<close> afterwards.\<close>

definition switching_client :: kanata where
  "switching_client =
     \<lparr>buffer = [], connected = True, reachable = True,
      incoming = [Timeout, Chunk (name_reply ''nav'' @ [newline]), Timeout, Timeout,
                  Timeout, Chunk (name_reply ''base'' @ [newline])],
      sent = []\<rparr>"

text \<open>A daemon that never answers.\<close>

definition silent_client :: kanata where
  "silent_client =
     \<lparr>buffer = [], connected = True, reachable = True, incoming = [], sent = []\<rparr>"

definition terminal_rule :: json where
  "terminal_rule =
     JObject [(''class'', JString ''term''), (''cmd'', JString ''notify-send hi'')]"

definition media_rule :: json where
  "media_rule =
     JObject [(''class'', JString ''chrome''), (''title'', JString ''YouTube''),
              (''layer'', JString ''media''), (''cmd'', JString ''notify-send hi''),
              (''set_mouse'', JArray [JInt 300, JInt 400])]"

definition fresh_handler :: "kanata \<Rightarrow> handler" where
  "fresh_handler k =
     \<lparr>last_win_title = None, last_win_class = None, client = k, commands = [], logged = []\<rparr>"

definition song_window :: win_info where
  "song_window = \<lparr>cls = ''chrome journal'', title = ''YouTube - Song''\<rparr>"

definition shell_window :: win_info where
  "shell_window = \<lparr>cls = ''xterm'', title = ''zsh''\<rparr>"

text \<open>A rule whose layer is disabled with \<^verbatim>\<open>false\<close>.\<close>

definition quiet_rule :: json where
  "quiet_rule =
     JObject [(''class'', JString ''term''), (''layer'', JBool False),
              (''cmd'', JString ''notify-send hi'')]"

text \<open>Rules for the pattern examples; the first two pass validation like any rule whose
  class is a non-blank string.\<close>

definition paren_rule :: json where
  "paren_rule = JObject [(''class'', JString ''('')]"

definition dot_rule :: json where
  "dot_rule = JObject [(''class'', JString ''a.c'')]"

definition class_a_rule :: json where
  "class_a_rule = JObject [(''class'', JString ''a'')]"

definition class_a_title_b_rule :: json where
  "class_a_title_b_rule = JObject [(''class'', JString ''a''), (''title'', JString ''b'')]"

definition readme_rule :: json where
  "readme_rule = JObject [(''title'', JString ''README''), (''layer'', JString ''docs'')]"

text \<open>Layers reported by the daemon, and rules for the validation examples.\<close>

definition known_layers :: json where
  "known_layers = JArray [JString ''media'', JString ''base'']"

definition null_class_rule :: json where
  "null_class_rule = JObject [(''class'', JNull), (''layer'', JString ''base'')]"

definition blank_class_rule :: json where
  "blank_class_rule = JObject [(''class'', JString ''  ''), (''layer'', JString ''base'')]"

definition long_mouse_rule :: json where
  "long_mouse_rule =
     JObject [(''class'', JString ''gimp''), (''set_mouse'', JArray [JInt 1, JInt 2, JInt 3])]"

definition string_key_rule :: json where
  "string_key_rule = JObject [(''class'', JString ''game''), (''fake_key'', JString ''Space'')]"

definition mixed_mouse_rule :: json where
  "mixed_mouse_rule =
     JObject [(''class'', JString ''gimp''), (''set_mouse'', JArray [JInt 1, JString ''2''])]"

definition smash_rule :: json where
  "smash_rule =
     JObject [(''class'', JString ''game''), (''fake_key'', JArray [JString ''Shoot'', JString ''smash''])]"

text \<open>A rule with all three side effects, and a window it matches.\<close>

definition player_rule :: json where
  "player_rule =
     JObject [(''class'', JString ''vlc''), (''title'', JString ''Movie''),
              (''layer'', JString ''media''), (''cmd'', JString ''notify-send hi''),
              (''fake_key'', JArray [JString ''Space'', JString ''tap'']),
              (''set_mouse'', JArray [JInt 300, JInt 400])]"

definition movie_window :: win_info where
  "movie_window = \<lparr>cls = ''vlc'', title = ''Movie''\<rparr>"

section \<open>Buffer discipline\<close>

lemma split_nl_nonempty: "split_nl s \<noteq> []"
  by (induction s) (auto split: list.splits)

lemma last_split_nl_clean: "newline \<notin> set (last (split_nl s))"
proof (induction s)
  case Nil
  show ?case by simp
next
  case (Cons c cs)
  show ?case
  proof (cases "split_nl cs")
    case Nil
    with split_nl_nonempty show ?thesis by blast
  next
    case (Cons l ls)
    with Cons.IH show ?thesis by (cases ls) auto
  qed
qed

lemma flush_buffer_clean: "newline \<notin> set (buffer (flush_buffer k))"
  by (simp add: flush_buffer_def last_split_nl_clean split: prod.splits)

lemma recv_line_timeout_clean:
  "recv_line inc buf = (rest, buf', True) \<Longrightarrow> newline \<notin> set buf'"
  by (induction inc buf rule: recv_line.induct) (auto split: if_splits)

lemma send_connected_clean: "newline \<notin> set (buffer (snd (send_connected k cmd)))"
  by (auto simp: send_connected_def Let_def last_split_nl_clean
      split: prod.splits dest: recv_line_timeout_clean)

lemma send_clean:
  assumes "send loads k cmd = Inr (r, k')"
  shows "newline \<notin> set (buffer k')"
proof (cases "connected k")
  case True
  with assms have "k' = snd (send_connected k cmd)"
    by (simp add: send_def)
  then show ?thesis by (simp add: send_connected_clean)
next
  case False
  with assms obtain k1 where "k' = snd (send_connected k1 cmd)"
    by (auto simp: send_def split: sum.splits) (metis snd_conv)
  then show ?thesis by (simp add: send_connected_clean)
qed

text \<open>
  C5.  After \<^verbatim>\<open>_flush_buffer\<close>, and after every \<^verbatim>\<open>send\<close> that returns, the buffer of the
  client holds no newline: all it keeps is one unfinished fragment, and no complete line
  that was received stays in it.  This holds from any state of the client, whatever the
  daemon sends and in whatever pieces.
\<close>

theorem buffer_discipline:
  "newline \<notin> set (buffer (flush_buffer k)) \<and>
   (\<forall>r k'. send loads k cmd = Inr (r, k') \<longrightarrow> newline \<notin> set (buffer k'))"
  using flush_buffer_clean send_clean by blast

theorem buffer_discipline_witness:
  "send (\<lambda>s. None) busy_client RequestLayerNames =
     Inr (Some ''frag'',
          \<lparr>buffer = ''part'', connected = True, reachable = True, incoming = [],
           sent = [RequestLayerNames]\<rparr>) \<and>
   newline \<notin> set (buffer (flush_buffer busy_client)) \<and>
   newline \<notin> set ''part''"
proof -
  have run: "send (\<lambda>s. None) busy_client RequestLayerNames =
     Inr (Some ''frag'',
          \<lparr>buffer = ''part'', connected = True, reachable = True, incoming = [],
           sent = [RequestLayerNames]\<rparr>)"
    by code_simp
  from buffer_discipline [of busy_client "\<lambda>s. None" RequestLayerNames] run
  show ?thesis by simp
qed

section \<open>Layer switching\<close>

lemma flush_buffer_keeps:
  "sent (flush_buffer k) = sent k" "connected (flush_buffer k) = connected k"
  by (simp_all add: flush_buffer_def split: prod.splits)

lemma send_connected_keeps:
  "sent (snd (send_connected k cmd)) = sent k @ [cmd]"
  "connected (snd (send_connected k cmd)) = connected k"
  by (simp_all add: send_connected_def Let_def flush_buffer_keeps split: prod.splits)

lemma connect_effect:
  assumes "connect loads k = Inr k1"
  shows "connected k1 \<and> sent k1 = sent k @ [RequestCurrentLayerName]"
proof -
  from assms have "k1 = snd (send_connected (k\<lparr>connected := True\<rparr>) RequestCurrentLayerName)"
    by (auto simp: connect_def split: if_splits prod.splits sum.splits)
  then show ?thesis by (simp add: send_connected_keeps)
qed

lemma send_effect:
  assumes "send loads k cmd = Inr (r, k')"
  shows "connected k' \<and>
         sent k' = sent k @ (if connected k then [cmd] else [RequestCurrentLayerName, cmd])"
proof (cases "connected k")
  case True
  with assms have "k' = snd (send_connected k cmd)" by (simp add: send_def)
  with True show ?thesis by (simp add: send_connected_keeps)
next
  case False
  with assms obtain k1 where c: "connect loads k = Inr k1"
    and k': "send_connected k1 cmd = (r, k')"
    by (cases "connect loads k") (auto simp: send_def)
  from k' have "k' = snd (send_connected k1 cmd)" by simp
  with connect_effect [OF c] False show ?thesis by (simp add: send_connected_keeps)
qed

lemma send_when_connected: "connected k \<Longrightarrow> send loads k cmd = Inr (send_connected k cmd)"
  by (simp add: send_def)

lemma get_current_layer_name_effect:
  assumes "get_current_layer_name loads k = Inr (name, k1)"
  shows "connected k1 \<and>
         sent k1 = sent k @ (if connected k then [RequestCurrentLayerName]
                             else [RequestCurrentLayerName, RequestCurrentLayerName])"
proof -
  from assms obtain r where "send loads k RequestCurrentLayerName = Inr (r, k1)"
    by (auto simp: get_current_layer_name_def split: sum.splits)
  from send_effect [OF this] show ?thesis by simp
qed

lemma change_layer_same:
  assumes "get_current_layer_name loads k = Inr (JString L, k1)"
  shows "change_layer loads k L = Inr (False, k1)"
  using assms by (simp add: change_layer_def)

lemma change_layer_other:
  assumes "get_current_layer_name loads k = Inr (name, k1)" and "name \<noteq> JString L"
  shows "change_layer loads k L = Inr (True, snd (send_connected k1 (ChangeLayer L)))"
proof -
  from get_current_layer_name_effect [OF assms(1)] have "connected k1" by simp
  then have "send loads k1 (ChangeLayer L) = Inr (send_connected k1 (ChangeLayer L))"
    by (rule send_when_connected)
  with assms show ?thesis
    by (auto simp: change_layer_def split: prod.splits)
qed

lemma change_layer_True:
  assumes "change_layer loads k L = Inr (True, k1)"
  shows "connected k1 \<and>
         sent k1 = sent k @ (if connected k then [RequestCurrentLayerName]
                             else [RequestCurrentLayerName, RequestCurrentLayerName])
                          @ [ChangeLayer L]"
proof -
  from assms obtain name k0 where g: "get_current_layer_name loads k = Inr (name, k0)"
    and n: "name \<noteq> JString L"
    by (auto simp: change_layer_def split: sum.splits if_splits)
  from change_layer_other [OF g n] assms have "k1 = snd (send_connected k0 (ChangeLayer L))"
    by simp
  with get_current_layer_name_effect [OF g] show ?thesis
    by (simp add: send_connected_keeps)
qed

text \<open>
  C1, as stated, fails: \<^verbatim>\<open>change_layer\<close> keeps no record of the current layer, it asks the
  daemon on every call.  With the daemon on layer \<^verbatim>\<open>base\<close>, \<^verbatim>\<open>change_layer("base")\<close> returns
  false, and a \<^verbatim>\<open>RequestCurrentLayerName\<close> request has gone over the socket.
\<close>

theorem change_layer_sends_query:
  "sent idle_client = [] \<and>
   change_layer loads_reply idle_client ''base'' =
     Inr (False, \<lparr>buffer = [], connected = True, reachable = True, incoming = [],
                  sent = [RequestCurrentLayerName]\<rparr>)"
  by code_simp

text \<open>
  C1, amended.  When the daemon reports \<^verbatim>\<open>L\<close> as the current layer, \<^verbatim>\<open>change_layer(L)\<close>
  returns false and sends no \<^verbatim>\<open>ChangeLayer\<close> request: all it has sent is the query for the
  layer name (preceded by the dummy query of \<^verbatim>\<open>_connect\<close> when the client was not yet
  connected).  When a first call has switched (returned true) and the daemon then reports
  \<^verbatim>\<open>L\<close>, the second call returns false, and the two calls together have sent exactly one
  \<^verbatim>\<open>ChangeLayer\<close> request.
\<close>

theorem change_layer_idempotent:
  "(get_current_layer_name loads k1 = Inr (JString L, k2) \<longrightarrow>
      change_layer loads k1 L = Inr (False, k2) \<and>
      sent k2 = sent k1 @ (if connected k1 then [RequestCurrentLayerName]
                           else [RequestCurrentLayerName, RequestCurrentLayerName])) \<and>
   (change_layer loads k L = Inr (True, k1) \<and>
    get_current_layer_name loads k1 = Inr (JString L, k2) \<longrightarrow>
      change_layer loads k1 L = Inr (False, k2) \<and>
      sent k2 = sent k @ (if connected k then [RequestCurrentLayerName]
                          else [RequestCurrentLayerName, RequestCurrentLayerName])
                       @ [ChangeLayer L, RequestCurrentLayerName])"
proof (intro conjI impI)
  assume g: "get_current_layer_name loads k1 = Inr (JString L, k2)"
  then show "change_layer loads k1 L = Inr (False, k2)" by (rule change_layer_same)
  from get_current_layer_name_effect [OF g]
  show "sent k2 = sent k1 @ (if connected k1 then [RequestCurrentLayerName]
                             else [RequestCurrentLayerName, RequestCurrentLayerName])"
    by simp
next
  assume a: "change_layer loads k L = Inr (True, k1) \<and>
    get_current_layer_name loads k1 = Inr (JString L, k2)"
  then show "change_layer loads k1 L = Inr (False, k2)" by (simp add: change_layer_same)
  from a change_layer_True [of loads k L k1]
    get_current_layer_name_effect [of loads k1 "JString L" k2]
  show "sent k2 = sent k @ (if connected k then [RequestCurrentLayerName]
                            else [RequestCurrentLayerName, RequestCurrentLayerName])
                         @ [ChangeLayer L, RequestCurrentLayerName]"
    by simp
qed

theorem change_layer_idempotent_witness:
  "change_layer loads_reply switching_client ''base'' =
     Inr (True, \<lparr>buffer = [], connected = True, reachable = True,
                 incoming = [Timeout, Chunk (name_reply ''base'' @ [newline])],
                 sent = [RequestCurrentLayerName, ChangeLayer ''base'']\<rparr>) \<and>
   change_layer loads_reply
     \<lparr>buffer = [], connected = True, reachable = True,
      incoming = [Timeout, Chunk (name_reply ''base'' @ [newline])],
      sent = [RequestCurrentLayerName, ChangeLayer ''base'']\<rparr> ''base'' =
     Inr (False, \<lparr>buffer = [], connected = True, reachable = True, incoming = [],
                  sent = [RequestCurrentLayerName, ChangeLayer ''base'',
                          RequestCurrentLayerName]\<rparr>)"
proof -
  let ?k1 = "\<lparr>buffer = [], connected = True, reachable = True,
              incoming = [Timeout, Chunk (name_reply ''base'' @ [newline])],
              sent = [RequestCurrentLayerName, ChangeLayer ''base'']\<rparr>"
  let ?k2 = "\<lparr>buffer = [], connected = True, reachable = True, incoming = [],
              sent = [RequestCurrentLayerName, ChangeLayer ''base'',
                      RequestCurrentLayerName]\<rparr>"
  have first: "change_layer loads_reply switching_client ''base'' = Inr (True, ?k1)"
    by code_simp
  have query: "get_current_layer_name loads_reply ?k1 = Inr (JString ''base'', ?k2)"
    by code_simp
  from change_layer_idempotent [of loads_reply ?k1 "''base''" ?k2 switching_client] first query
  show ?thesis by simp
qed

lemma layer_name_unavailable:
  assumes "send loads k RequestCurrentLayerName = Inr (response, k1)"
    and "response = None \<or> (\<exists>r. response = Some r \<and> loads r = None)"
  shows "get_current_layer_name loads k = Inr (JNull, k1)"
  using assms
  by (auto simp: get_current_layer_name_def layer_name_of_def parse_json_response_def)

lemma side_effects_cache:
  assumes "side_effects loads kvs h = Inr h'"
  shows "last_win_title h' = last_win_title h \<and> last_win_class h' = last_win_class h"
  using assms
  by (auto simp: side_effects_def Let_def split: if_splits sum.splits)

lemma side_effects_command:
  assumes "side_effects loads kvs h = Inr h'" and "map_of kvs ''cmd'' = Some c" and "truthy c"
  shows "commands h' = commands h @ [c]"
  using assms
  by (auto simp: side_effects_def Let_def split: if_splits sum.splits)

lemma on_focus_event_switch:
  assumes "Some (title w) \<noteq> last_win_title h \<or> Some (cls w) \<noteq> last_win_class h"
    and "detect_rule rules w = Inr (Some (JObject kvs))" and "kvs \<noteq> []"
    and "map_of kvs ''layer'' = Some (JString L)" and "L \<noteq> []"
    and "get_current_layer_name loads (client h) = Inr (name, k1)" and "name \<noteq> JString L"
  shows "on_focus_event loads rules h w =
           side_effects loads kvs
             (h\<lparr>logged := logged h @ [w], last_win_title := Some (title w),
                last_win_class := Some (cls w),
                client := snd (send_connected k1 (ChangeLayer L))\<rparr>)"
proof -
  from change_layer_other [OF assms(6,7)]
  have "change_layer loads (client h) L = Inr (True, snd (send_connected k1 (ChangeLayer L)))" .
  with assms(1-5) show ?thesis
    by (auto simp: on_focus_event_def Let_def)
qed

lemma side_effects_fire:
  assumes conn: "connected (client h0)"
    and cmd: "rule_cmd = (case map_of kvs ''cmd'' of None \<Rightarrow> JNull | Some v \<Rightarrow> v)"
    and fk: "fake_key = (case map_of kvs ''fake_key'' of None \<Rightarrow> JNull | Some v \<Rightarrow> v)"
    and sm: "mouse = (case map_of kvs ''set_mouse'' of None \<Rightarrow> JNull | Some v \<Rightarrow> v)"
    and fkv: "truthy fake_key \<longrightarrow> validate_fake_key fake_key None = Inr (key_name, action)"
    and smv: "truthy mouse \<longrightarrow> unpack2 mouse = Inr (x, y)"
  shows "\<exists>h'. side_effects loads kvs h0 = Inr h' \<and>
           last_win_title h' = last_win_title h0 \<and> last_win_class h' = last_win_class h0 \<and>
           logged h' = logged h0 \<and>
           commands h' = commands h0 @ (if truthy rule_cmd then [rule_cmd] else []) \<and>
           sent (client h') =
             sent (client h0) @ (if truthy fake_key then [ActOnFakeKey key_name action] else [])
                              @ (if truthy mouse then [SetMouse x y] else [])"
proof -
  define h1 where "h1 = (if truthy rule_cmd then h0\<lparr>commands := commands h0 @ [rule_cmd]\<rparr> else h0)"
  define k2 where "k2 = (if truthy fake_key
      then snd (send_connected (client h1) (ActOnFakeKey key_name action)) else client h1)"
  define k3 where "k3 = (if truthy mouse then snd (send_connected k2 (SetMouse x y)) else k2)"
  have c1: "connected (client h1)" and s1: "sent (client h1) = sent (client h0)"
    using conn by (simp_all add: h1_def)
  have c2: "connected k2" and s2: "sent k2 = sent (client h0) @
      (if truthy fake_key then [ActOnFakeKey key_name action] else [])"
    using c1 s1 by (simp_all add: k2_def send_connected_keeps)
  have s3: "sent k3 = sent (client h0) @
      (if truthy fake_key then [ActOnFakeKey key_name action] else []) @
      (if truthy mouse then [SetMouse x y] else [])"
    using s2 by (simp add: k3_def send_connected_keeps)
  have fire_key: "truthy fake_key \<Longrightarrow> act_on_fake_key loads (client h1) fake_key = Inr k2"
    using fkv c1
    by (simp add: act_on_fake_key_def send_when_connected k2_def split: prod.splits)
  have fire_mouse: "truthy mouse \<Longrightarrow> set_mouse loads k2 mouse = Inr k3"
    using smv c2
    by (simp add: set_mouse_def send_when_connected k3_def split: prod.splits)
  have unfolded: "side_effects loads kvs h0 =
      (case (if truthy fake_key
             then (case act_on_fake_key loads (client h1) fake_key of
                     Inl e \<Rightarrow> Inl e
                   | Inr k \<Rightarrow> Inr (h1\<lparr>client := k\<rparr>))
             else Inr h1) of
         Inl e \<Rightarrow> Inl e
       | Inr h2 \<Rightarrow>
           if truthy mouse
           then (case set_mouse loads (client h2) mouse of
                   Inl e \<Rightarrow> Inl e
                 | Inr k \<Rightarrow> Inr (h2\<lparr>client := k\<rparr>))
           else Inr h2)"
    unfolding side_effects_def Let_def cmd fk sm h1_def ..
  have "side_effects loads kvs h0 = Inr (h1\<lparr>client := k3\<rparr>)"
  proof (cases "truthy fake_key")
    case key: True
    show ?thesis
    proof (cases "truthy mouse")
      case True
      with key fire_key fire_mouse show ?thesis unfolding unfolded by simp
    next
      case False
      with key fire_key show ?thesis unfolding unfolded by (simp add: k3_def)
    qed
  next
    case nokey: False
    then have k2: "k2 = client h1" by (simp add: k2_def)
    show ?thesis
    proof (cases "truthy mouse")
      case True
      with nokey fire_mouse k2 show ?thesis unfolding unfolded by simp
    next
      case False
      with nokey k2 show ?thesis unfolding unfolded by (simp add: k3_def)
    qed
  qed
  moreover have "commands (h1\<lparr>client := k3\<rparr>) =
      commands h0 @ (if truthy rule_cmd then [rule_cmd] else [])"
    by (simp add: h1_def)
  moreover have "last_win_title (h1\<lparr>client := k3\<rparr>) = last_win_title h0"
    "last_win_class (h1\<lparr>client := k3\<rparr>) = last_win_class h0"
    "logged (h1\<lparr>client := k3\<rparr>) = logged h0"
    by (simp_all add: h1_def)
  ultimately show ?thesis using s3 by simp
qed

lemma on_focus_event_fires:
  assumes "Some (title w) \<noteq> last_win_title h \<or> Some (cls w) \<noteq> last_win_class h"
    and "detect_rule rules w = Inr (Some (JObject kvs))" and "kvs \<noteq> []"
    and "map_of kvs ''layer'' = Some (JString L)" and "L \<noteq> []"
    and "get_current_layer_name loads (client h) = Inr (name, k1)" and "name \<noteq> JString L"
    and "rule_cmd = (case map_of kvs ''cmd'' of None \<Rightarrow> JNull | Some v \<Rightarrow> v)"
    and "fake_key = (case map_of kvs ''fake_key'' of None \<Rightarrow> JNull | Some v \<Rightarrow> v)"
    and "mouse = (case map_of kvs ''set_mouse'' of None \<Rightarrow> JNull | Some v \<Rightarrow> v)"
    and "truthy fake_key \<longrightarrow> validate_fake_key fake_key None = Inr (key_name, action)"
    and "truthy mouse \<longrightarrow> unpack2 mouse = Inr (x, y)"
  shows "\<exists>h'. on_focus_event loads rules h w = Inr h' \<and>
           last_win_title h' = Some (title w) \<and> last_win_class h' = Some (cls w) \<and>
           logged h' = logged h @ [w] \<and>
           commands h' = commands h @ (if truthy rule_cmd then [rule_cmd] else []) \<and>
           sent (client h') =
             sent k1 @ [ChangeLayer L]
                     @ (if truthy fake_key then [ActOnFakeKey key_name action] else [])
                     @ (if truthy mouse then [SetMouse x y] else [])"
proof -
  let ?h0 = "h\<lparr>logged := logged h @ [w], last_win_title := Some (title w),
                last_win_class := Some (cls w),
                client := snd (send_connected k1 (ChangeLayer L))\<rparr>"
  from get_current_layer_name_effect [OF assms(6)] have "connected k1" by simp
  then have conn: "connected (client ?h0)" by (simp add: send_connected_keeps)
  from side_effects_fire [OF conn assms(8-12), of loads] obtain h' where
    h': "side_effects loads kvs ?h0 = Inr h'"
      "last_win_title h' = last_win_title ?h0" "last_win_class h' = last_win_class ?h0"
      "logged h' = logged ?h0"
      "commands h' = commands ?h0 @ (if truthy rule_cmd then [rule_cmd] else [])"
      "sent (client h') =
         sent (client ?h0) @ (if truthy fake_key then [ActOnFakeKey key_name action] else [])
                           @ (if truthy mouse then [SetMouse x y] else [])"
    by blast
  from on_focus_event_switch [OF assms(1-7)] h'(1)
  have "on_focus_event loads rules h w = Inr h'" by simp
  with h'(2-6) show ?thesis by (simp add: send_connected_keeps)
qed

text \<open>
  C10.  Whenever the name obtained from the daemon differs from \<^verbatim>\<open>L\<close>, \<^verbatim>\<open>change_layer(L)\<close>
  sends \<^verbatim>\<open>ChangeLayer\<close> and returns true, whatever comes back (nothing is assumed about the
  rest of the script, so also when nothing comes back).  A query that timed out or whose
  answer is not JSON yields the name \<^verbatim>\<open>None\<close>, which differs from every \<^verbatim>\<open>L\<close>.  The handler
  then goes on to the side effects of the matched rule and fires each of them, again
  whatever the daemon answers: the rule's command is started when it is truthy, an
  \<^verbatim>\<open>ActOnFakeKey\<close> request with the validated key is sent when \<^verbatim>\<open>fake_key\<close> is truthy, and a
  \<^verbatim>\<open>SetMouse\<close> request with the two coordinates is sent when \<^verbatim>\<open>set_mouse\<close> is truthy; these
  requests follow the \<^verbatim>\<open>ChangeLayer\<close> request directly, in this order, and nothing else is
  sent.
\<close>

theorem switch_unconfirmed:
  "(get_current_layer_name loads k = Inr (name, k1) \<and> name \<noteq> JString L \<longrightarrow>
      change_layer loads k L = Inr (True, snd (send_connected k1 (ChangeLayer L))) \<and>
      sent (snd (send_connected k1 (ChangeLayer L))) = sent k1 @ [ChangeLayer L]) \<and>
   (send loads k RequestCurrentLayerName = Inr (response, k1) \<and>
    (response = None \<or> (\<exists>r. response = Some r \<and> loads r = None)) \<longrightarrow>
      get_current_layer_name loads k = Inr (JNull, k1)) \<and>
   ((Some (title w) \<noteq> last_win_title h \<or> Some (cls w) \<noteq> last_win_class h) \<and>
    detect_rule rules w = Inr (Some (JObject kvs)) \<and> kvs \<noteq> [] \<and>
    map_of kvs ''layer'' = Some (JString L) \<and> L \<noteq> [] \<and>
    get_current_layer_name loads (client h) = Inr (name, k1) \<and> name \<noteq> JString L \<longrightarrow>
      on_focus_event loads rules h w =
        side_effects loads kvs
          (h\<lparr>logged := logged h @ [w], last_win_title := Some (title w),
             last_win_class := Some (cls w),
             client := snd (send_connected k1 (ChangeLayer L))\<rparr>) \<and>
      (\<forall>h' c. on_focus_event loads rules h w = Inr h' \<and> map_of kvs ''cmd'' = Some c \<and> truthy c
         \<longrightarrow> commands h' = commands h @ [c])) \<and>
   ((Some (title w) \<noteq> last_win_title h \<or> Some (cls w) \<noteq> last_win_class h) \<and>
    detect_rule rules w = Inr (Some (JObject kvs)) \<and> kvs \<noteq> [] \<and>
    map_of kvs ''layer'' = Some (JString L) \<and> L \<noteq> [] \<and>
    get_current_layer_name loads (client h) = Inr (name, k1) \<and> name \<noteq> JString L \<and>
    rule_cmd = (case map_of kvs ''cmd'' of None \<Rightarrow> JNull | Some v \<Rightarrow> v) \<and>
    fake_key = (case map_of kvs ''fake_key'' of None \<Rightarrow> JNull | Some v \<Rightarrow> v) \<and>
    mouse = (case map_of kvs ''set_mouse'' of None \<Rightarrow> JNull | Some v \<Rightarrow> v) \<and>
    (truthy fake_key \<longrightarrow> validate_fake_key fake_key None = Inr (key_name, action)) \<and>
    (truthy mouse \<longrightarrow> unpack2 mouse = Inr (x, y)) \<longrightarrow>
      (\<exists>h'. on_focus_event loads rules h w = Inr h' \<and>
         last_win_title h' = Some (title w) \<and> last_win_class h' = Some (cls w) \<and>
         logged h' = logged h @ [w] \<and>
         commands h' = commands h @ (if truthy rule_cmd then [rule_cmd] else []) \<and>
         sent (client h') =
           sent k1 @ [ChangeLayer L]
                   @ (if truthy fake_key then [ActOnFakeKey key_name action] else [])
                   @ (if truthy mouse then [SetMouse x y] else [])))"
proof (intro conjI impI allI)
  assume a: "get_current_layer_name loads k = Inr (name, k1) \<and> name \<noteq> JString L"
  then show "change_layer loads k L = Inr (True, snd (send_connected k1 (ChangeLayer L)))"
    by (simp add: change_layer_other)
  show "sent (snd (send_connected k1 (ChangeLayer L))) = sent k1 @ [ChangeLayer L]"
    by (simp add: send_connected_keeps)
next
  assume "send loads k RequestCurrentLayerName = Inr (response, k1) \<and>
    (response = None \<or> (\<exists>r. response = Some r \<and> loads r = None))"
  then show "get_current_layer_name loads k = Inr (JNull, k1)"
    by (simp add: layer_name_unavailable)
next
  assume a: "(Some (title w) \<noteq> last_win_title h \<or> Some (cls w) \<noteq> last_win_class h) \<and>
    detect_rule rules w = Inr (Some (JObject kvs)) \<and> kvs \<noteq> [] \<and>
    map_of kvs ''layer'' = Some (JString L) \<and> L \<noteq> [] \<and>
    get_current_layer_name loads (client h) = Inr (name, k1) \<and> name \<noteq> JString L"
  then show eq: "on_focus_event loads rules h w =
        side_effects loads kvs
          (h\<lparr>logged := logged h @ [w], last_win_title := Some (title w),
             last_win_class := Some (cls w),
             client := snd (send_connected k1 (ChangeLayer L))\<rparr>)"
    using on_focus_event_switch [of w h rules kvs L loads name k1] by blast
  fix h' c
  assume "on_focus_event loads rules h w = Inr h' \<and> map_of kvs ''cmd'' = Some c \<and> truthy c"
  with eq side_effects_command [of loads kvs _ h' c]
  show "commands h' = commands h @ [c]" by simp
next
  assume a: "(Some (title w) \<noteq> last_win_title h \<or> Some (cls w) \<noteq> last_win_class h) \<and>
    detect_rule rules w = Inr (Some (JObject kvs)) \<and> kvs \<noteq> [] \<and>
    map_of kvs ''layer'' = Some (JString L) \<and> L \<noteq> [] \<and>
    get_current_layer_name loads (client h) = Inr (name, k1) \<and> name \<noteq> JString L \<and>
    rule_cmd = (case map_of kvs ''cmd'' of None \<Rightarrow> JNull | Some v \<Rightarrow> v) \<and>
    fake_key = (case map_of kvs ''fake_key'' of None \<Rightarrow> JNull | Some v \<Rightarrow> v) \<and>
    mouse = (case map_of kvs ''set_mouse'' of None \<Rightarrow> JNull | Some v \<Rightarrow> v) \<and>
    (truthy fake_key \<longrightarrow> validate_fake_key fake_key None = Inr (key_name, action)) \<and>
    (truthy mouse \<longrightarrow> unpack2 mouse = Inr (x, y))"
  then show "\<exists>h'. on_focus_event loads rules h w = Inr h' \<and>
         last_win_title h' = Some (title w) \<and> last_win_class h' = Some (cls w) \<and>
         logged h' = logged h @ [w] \<and>
         commands h' = commands h @ (if truthy rule_cmd then [rule_cmd] else []) \<and>
         sent (client h') =
           sent k1 @ [ChangeLayer L]
                   @ (if truthy fake_key then [ActOnFakeKey key_name action] else [])
                   @ (if truthy mouse then [SetMouse x y] else [])"
    by (intro on_focus_event_fires) blast+
qed

theorem switch_unconfirmed_witness:
  "get_current_layer_name (\<lambda>s. None) silent_client =
     Inr (JNull, silent_client\<lparr>sent := [RequestCurrentLayerName]\<rparr>) \<and>
   change_layer (\<lambda>s. None) silent_client ''media'' =
     Inr (True, silent_client\<lparr>sent := [RequestCurrentLayerName, ChangeLayer ''media'']\<rparr>) \<and>
   on_focus_event (\<lambda>s. None) [terminal_rule, media_rule] (fresh_handler silent_client)
     song_window =
     Inr \<lparr>last_win_title = Some ''YouTube - Song'', last_win_class = Some ''chrome journal'',
          client = silent_client\<lparr>sent := [RequestCurrentLayerName, ChangeLayer ''media'',
                                          SetMouse (JInt 300) (JInt 400)]\<rparr>,
          commands = [JString ''notify-send hi''], logged = [song_window]\<rparr> \<and>
   (\<exists>h'. on_focus_event (\<lambda>s. None) [terminal_rule, player_rule] (fresh_handler silent_client)
           movie_window = Inr h' \<and>
      last_win_title h' = Some ''Movie'' \<and> last_win_class h' = Some ''vlc'' \<and>
      logged h' = [movie_window] \<and>
      commands h' = [JString ''notify-send hi''] \<and>
      sent (client h') =
        [RequestCurrentLayerName, ChangeLayer ''media'', ActOnFakeKey ''Space'' ''Tap'',
         SetMouse (JInt 300) (JInt 400)])"
proof -
  let ?k1 = "silent_client\<lparr>sent := [RequestCurrentLayerName]\<rparr>"
  let ?kvs = "[(''class'', JString ''chrome''), (''title'', JString ''YouTube''),
              (''layer'', JString ''media''), (''cmd'', JString ''notify-send hi''),
              (''set_mouse'', JArray [JInt 300, JInt 400])]"
  let ?pvs = "[(''class'', JString ''vlc''), (''title'', JString ''Movie''),
              (''layer'', JString ''media''), (''cmd'', JString ''notify-send hi''),
              (''fake_key'', JArray [JString ''Space'', JString ''tap'']),
              (''set_mouse'', JArray [JInt 300, JInt 400])]"
  have sendq: "send (\<lambda>s. None) silent_client RequestCurrentLayerName = Inr (None, ?k1)"
    by code_simp
  have found: "detect_rule [terminal_rule, media_rule] song_window = Inr (Some (JObject ?kvs))"
    by code_simp
  have differs: "Some (title song_window) \<noteq> last_win_title (fresh_handler silent_client)"
    by (simp add: fresh_handler_def)
  have cl: "client (fresh_handler silent_client) = silent_client"
    by (simp add: fresh_handler_def)
  have effects: "side_effects (\<lambda>s. None) ?kvs
      (fresh_handler silent_client
        \<lparr>logged := logged (fresh_handler silent_client) @ [song_window],
         last_win_title := Some (title song_window), last_win_class := Some (cls song_window),
         client := snd (send_connected ?k1 (ChangeLayer ''media''))\<rparr>) =
     Inr \<lparr>last_win_title = Some ''YouTube - Song'', last_win_class = Some ''chrome journal'',
          client = silent_client\<lparr>sent := [RequestCurrentLayerName, ChangeLayer ''media'',
                                          SetMouse (JInt 300) (JInt 400)]\<rparr>,
          commands = [JString ''notify-send hi''], logged = [song_window]\<rparr>"
    by code_simp
  have after: "snd (send_connected ?k1 (ChangeLayer ''media'')) =
      silent_client\<lparr>sent := [RequestCurrentLayerName, ChangeLayer ''media'']\<rparr>"
    by code_simp
  note inst = switch_unconfirmed [of "\<lambda>s. None" silent_client JNull ?k1 "''media''" None
      song_window "fresh_handler silent_client" "[terminal_rule, media_rule]" ?kvs]
  from inst sendq have name: "get_current_layer_name (\<lambda>s. None) silent_client = Inr (JNull, ?k1)"
    by simp
  with inst after have chg: "change_layer (\<lambda>s. None) silent_client ''media'' =
     Inr (True, silent_client\<lparr>sent := [RequestCurrentLayerName, ChangeLayer ''media'']\<rparr>)"
    by simp
  from inst name found differs cl effects
  have song: "on_focus_event (\<lambda>s. None) [terminal_rule, media_rule] (fresh_handler silent_client)
          song_window =
     Inr \<lparr>last_win_title = Some ''YouTube - Song'', last_win_class = Some ''chrome journal'',
          client = silent_client\<lparr>sent := [RequestCurrentLayerName, ChangeLayer ''media'',
                                          SetMouse (JInt 300) (JInt 400)]\<rparr>,
          commands = [JString ''notify-send hi''], logged = [song_window]\<rparr>"
    by simp
  have pfound: "detect_rule [terminal_rule, player_rule] movie_window = Inr (Some (JObject ?pvs))"
    by code_simp
  have pdiffers: "Some (title movie_window) \<noteq> last_win_title (fresh_handler silent_client) \<or>
      Some (cls movie_window) \<noteq> last_win_class (fresh_handler silent_client)"
    by (simp add: fresh_handler_def)
  have pname: "get_current_layer_name (\<lambda>s. None) (client (fresh_handler silent_client)) =
      Inr (JNull, ?k1)"
    using name cl by simp
  have key: "validate_fake_key (JArray [JString ''Space'', JString ''tap'']) None =
      Inr (''Space'', ''Tap'')"
    by code_simp
  have pos: "unpack2 (JArray [JInt 300, JInt 400]) = Inr (JInt 300, JInt 400)" by simp
  have hyp: "(Some (title movie_window) \<noteq> last_win_title (fresh_handler silent_client) \<or>
       Some (cls movie_window) \<noteq> last_win_class (fresh_handler silent_client)) \<and>
    detect_rule [terminal_rule, player_rule] movie_window = Inr (Some (JObject ?pvs)) \<and>
    ?pvs \<noteq> [] \<and> map_of ?pvs ''layer'' = Some (JString ''media'') \<and> ''media'' \<noteq> [] \<and>
    get_current_layer_name (\<lambda>s. None) (client (fresh_handler silent_client)) = Inr (JNull, ?k1) \<and>
    JNull \<noteq> JString ''media'' \<and>
    JString ''notify-send hi'' = (case map_of ?pvs ''cmd'' of None \<Rightarrow> JNull | Some v \<Rightarrow> v) \<and>
    JArray [JString ''Space'', JString ''tap''] =
      (case map_of ?pvs ''fake_key'' of None \<Rightarrow> JNull | Some v \<Rightarrow> v) \<and>
    JArray [JInt 300, JInt 400] =
      (case map_of ?pvs ''set_mouse'' of None \<Rightarrow> JNull | Some v \<Rightarrow> v) \<and>
    (truthy (JArray [JString ''Space'', JString ''tap'']) \<longrightarrow>
       validate_fake_key (JArray [JString ''Space'', JString ''tap'']) None =
         Inr (''Space'', ''Tap'')) \<and>
    (truthy (JArray [JInt 300, JInt 400]) \<longrightarrow>
       unpack2 (JArray [JInt 300, JInt 400]) = Inr (JInt 300, JInt 400))"
    using pfound pdiffers pname key pos by simp
  have fired: "\<exists>h'. on_focus_event (\<lambda>s. None) [terminal_rule, player_rule]
        (fresh_handler silent_client) movie_window = Inr h' \<and>
      last_win_title h' = Some (title movie_window) \<and>
      last_win_class h' = Some (cls movie_window) \<and>
      logged h' = logged (fresh_handler silent_client) @ [movie_window] \<and>
      commands h' = commands (fresh_handler silent_client) @
        (if truthy (JString ''notify-send hi'') then [JString ''notify-send hi''] else []) \<and>
      sent (client h') =
        sent ?k1 @ [ChangeLayer ''media''] @
        (if truthy (JArray [JString ''Space'', JString ''tap''])
         then [ActOnFakeKey ''Space'' ''Tap''] else []) @
        (if truthy (JArray [JInt 300, JInt 400])
         then [SetMouse (JInt 300) (JInt 400)] else [])"
    by (rule switch_unconfirmed [THEN conjunct2, THEN conjunct2, THEN conjunct2, THEN mp,
          OF hyp])
  then have "\<exists>h'. on_focus_event (\<lambda>s. None) [terminal_rule, player_rule]
        (fresh_handler silent_client) movie_window = Inr h' \<and>
      last_win_title h' = Some ''Movie'' \<and> last_win_class h' = Some ''vlc'' \<and>
      logged h' = [movie_window] \<and>
      commands h' = [JString ''notify-send hi''] \<and>
      sent (client h') =
        [RequestCurrentLayerName, ChangeLayer ''media'', ActOnFakeKey ''Space'' ''Tap'',
         SetMouse (JInt 300) (JInt 400)]"
    by (simp add: fresh_handler_def movie_window_def silent_client_def)
  with name chg song show ?thesis by blast
qed

section \<open>The focus handler and its cache\<close>

lemma on_focus_event_same:
  "last_win_title h = Some (title w) \<Longrightarrow> last_win_class h = Some (cls w) \<Longrightarrow>
   on_focus_event loads rules h w = Inr h"
  by (simp add: on_focus_event_def)

lemma on_focus_event_matched:
  assumes "on_focus_event loads rules h w = Inr h1"
    and "detect_rule rules w = Inr (Some r)" and "truthy r"
    and "Some (title w) \<noteq> last_win_title h \<or> Some (cls w) \<noteq> last_win_class h"
  shows "last_win_title h1 = Some (title w) \<and> last_win_class h1 = Some (cls w)"
  using assms
  by (auto simp: on_focus_event_def Let_def
      split: if_splits sum.splits option.splits json.splits prod.splits
      dest!: side_effects_cache)

lemma on_focus_event_unmatched:
  assumes "detect_rule rules w = Inr None \<or>
           (\<exists>r. detect_rule rules w = Inr (Some r) \<and> \<not> truthy r)"
    and "Some (title w) \<noteq> last_win_title h \<or> Some (cls w) \<noteq> last_win_class h"
  shows "on_focus_event loads rules h w = Inr (h\<lparr>logged := logged h @ [w]\<rparr>)"
  using assms by (auto simp: on_focus_event_def Let_def)

lemma second_focus:
  assumes "on_focus_event loads rules h w = Inr h1"
  shows "on_focus_event loads rules h1 w = Inr h1 \<or>
      (h1 = h\<lparr>logged := logged h @ [w]\<rparr> \<and>
       on_focus_event loads rules h1 w = Inr (h1\<lparr>logged := logged h1 @ [w]\<rparr>))"
proof (cases "Some (title w) \<noteq> last_win_title h \<or> Some (cls w) \<noteq> last_win_class h")
  case False
  with assms have "h1 = h" by (simp add: on_focus_event_def)
  with assms show ?thesis by simp
next
  case differs: True
  from assms differs obtain res where d: "detect_rule rules w = Inr res"
    by (cases "detect_rule rules w") (auto simp: on_focus_event_def Let_def)
  show ?thesis
  proof (cases "\<exists>r. res = Some r \<and> truthy r")
    case True
    then obtain r where "res = Some r" "truthy r" by blast
    with on_focus_event_matched [OF assms _ _ differs] d
    have "last_win_title h1 = Some (title w) \<and> last_win_class h1 = Some (cls w)" by simp
    then show ?thesis by (simp add: on_focus_event_same)
  next
    case False
    with d have un: "detect_rule rules w = Inr None \<or>
        (\<exists>r. detect_rule rules w = Inr (Some r) \<and> \<not> truthy r)"
      by (cases res) auto
    from on_focus_event_unmatched [OF un differs] assms
    have h1: "h1 = h\<lparr>logged := logged h @ [w]\<rparr>" by simp
    with differs
    have "Some (title w) \<noteq> last_win_title h1 \<or> Some (cls w) \<noteq> last_win_class h1"
      by simp
    from on_focus_event_unmatched [OF un this] h1 show ?thesis by simp
  qed
qed

text \<open>
  C4, as stated, fails: the handler stores the window in its cache as soon as a rule has
  matched, before it looks at the rule's layer.  The rule \<^verbatim>\<open>{"class": "term", "cmd": ...}\<close>
  has no layer; on the window \<^verbatim>\<open>xterm\<close> / \<^verbatim>\<open>zsh\<close> the cache goes from \<^verbatim>\<open>None\<close> to that
  window.
\<close>

theorem no_layer_updates_cache:
  "last_win_title (fresh_handler silent_client) = None \<and>
   last_win_class (fresh_handler silent_client) = None \<and>
   on_focus_event (\<lambda>s. None) [terminal_rule] (fresh_handler silent_client) shell_window =
     Inr \<lparr>last_win_title = Some ''zsh'', last_win_class = Some ''xterm'',
          client = silent_client, commands = [], logged = [shell_window]\<rparr>"
  by code_simp

text \<open>
  C4, amended.  When a focus notification for a window other than the cached one matches a
  rule that has no layer (absent, or a falsy value such as \<^verbatim>\<open>false\<close>), the handler writes
  its log line, stores the window's class and title in the cache and does nothing else:
  the client is untouched (nothing sent, nothing read) and no command is run.
\<close>

theorem no_layer_no_effects:
  assumes "Some (title w) \<noteq> last_win_title h \<or> Some (cls w) \<noteq> last_win_class h"
    and "detect_rule rules w = Inr (Some (JObject kvs))" and "kvs \<noteq> []"
    and "map_of kvs ''layer'' = None \<or> (\<exists>v. map_of kvs ''layer'' = Some v \<and> \<not> truthy v)"
  shows "on_focus_event loads rules h w =
           Inr (h\<lparr>logged := logged h @ [w], last_win_title := Some (title w),
                  last_win_class := Some (cls w)\<rparr>)"
  using assms by (auto simp: on_focus_event_def Let_def)

theorem no_layer_no_effects_witness:
  "on_focus_event loads_reply [media_rule, quiet_rule] (fresh_handler idle_client) shell_window =
     Inr \<lparr>last_win_title = Some ''zsh'', last_win_class = Some ''xterm'',
          client = idle_client, commands = [], logged = [shell_window]\<rparr>"
proof -
  let ?kvs = "[(''class'', JString ''term''), (''layer'', JBool False),
               (''cmd'', JString ''notify-send hi'')]"
  have found: "detect_rule [media_rule, quiet_rule] shell_window = Inr (Some (JObject ?kvs))"
    by code_simp
  have differs: "Some (title shell_window) \<noteq> last_win_title (fresh_handler idle_client) \<or>
      Some (cls shell_window) \<noteq> last_win_class (fresh_handler idle_client)"
    by (simp add: fresh_handler_def)
  have nolayer: "map_of ?kvs ''layer'' = None \<or>
      (\<exists>v. map_of ?kvs ''layer'' = Some v \<and> \<not> truthy v)"
    by simp
  have "?kvs \<noteq> []" by simp
  from no_layer_no_effects [OF differs found this nolayer, of loads_reply]
  show ?thesis by (simp add: fresh_handler_def shell_window_def)
qed

text \<open>
  C8.  A notification whose class and title are both the cached ones is ignored: the state
  comes back as it was, so nothing is looked up, logged, sent or run.  Of two consecutive
  notifications with the same class and title, the second is ignored in this way whenever
  the first matched a rule; when the first matched none it only wrote its log line, and so
  does the second.  In both cases the second leaves the client, the commands and the cache
  alone: the pair produces at most one dispatch.
\<close>

theorem duplicate_focus_ignored:
  "(last_win_title h = Some (title w) \<and> last_win_class h = Some (cls w) \<longrightarrow>
      on_focus_event loads rules h w = Inr h) \<and>
   (on_focus_event loads rules h w = Inr h1 \<longrightarrow>
      on_focus_event loads rules h1 w = Inr h1 \<or>
      (h1 = h\<lparr>logged := logged h @ [w]\<rparr> \<and>
       on_focus_event loads rules h1 w = Inr (h1\<lparr>logged := logged h1 @ [w]\<rparr>)))"
  using on_focus_event_same second_focus by blast

theorem duplicate_focus_ignored_witness:
  "on_focus_event (\<lambda>s. None) [terminal_rule, media_rule] (fresh_handler silent_client)
     song_window =
     Inr \<lparr>last_win_title = Some ''YouTube - Song'', last_win_class = Some ''chrome journal'',
          client = silent_client\<lparr>sent := [RequestCurrentLayerName, ChangeLayer ''media'',
                                          SetMouse (JInt 300) (JInt 400)]\<rparr>,
          commands = [JString ''notify-send hi''], logged = [song_window]\<rparr> \<and>
   on_focus_event (\<lambda>s. None) [terminal_rule, media_rule]
     \<lparr>last_win_title = Some ''YouTube - Song'', last_win_class = Some ''chrome journal'',
      client = silent_client\<lparr>sent := [RequestCurrentLayerName, ChangeLayer ''media'',
                                      SetMouse (JInt 300) (JInt 400)]\<rparr>,
      commands = [JString ''notify-send hi''], logged = [song_window]\<rparr>
     song_window =
     Inr \<lparr>last_win_title = Some ''YouTube - Song'', last_win_class = Some ''chrome journal'',
          client = silent_client\<lparr>sent := [RequestCurrentLayerName, ChangeLayer ''media'',
                                          SetMouse (JInt 300) (JInt 400)]\<rparr>,
          commands = [JString ''notify-send hi''], logged = [song_window]\<rparr>"
proof -
  let ?h1 = "\<lparr>last_win_title = Some ''YouTube - Song'', last_win_class = Some ''chrome journal'',
      client = silent_client\<lparr>sent := [RequestCurrentLayerName, ChangeLayer ''media'',
                                      SetMouse (JInt 300) (JInt 400)]\<rparr>,
      commands = [JString ''notify-send hi''], logged = [song_window]\<rparr>"
  have first: "on_focus_event (\<lambda>s. None) [terminal_rule, media_rule]
      (fresh_handler silent_client) song_window = Inr ?h1"
    by code_simp
  have other: "?h1 \<noteq> (fresh_handler silent_client)
      \<lparr>logged := logged (fresh_handler silent_client) @ [song_window]\<rparr>"
    by (simp add: fresh_handler_def)
  from duplicate_focus_ignored [of "fresh_handler silent_client" song_window "\<lambda>s. None"
      "[terminal_rule, media_rule]" ?h1] first other
  have second: "on_focus_event (\<lambda>s. None) [terminal_rule, media_rule] ?h1 song_window = Inr ?h1"
    by blast
  have cached: "last_win_title ?h1 = Some (title song_window) \<and>
      last_win_class ?h1 = Some (cls song_window)"
    by (simp add: song_window_def)
  from duplicate_focus_ignored [of ?h1 song_window "\<lambda>s. None" "[terminal_rule, media_rule]"]
    cached
  have "on_focus_event (\<lambda>s. None) [terminal_rule, media_rule] ?h1 song_window = Inr ?h1"
    by blast
  with first second show ?thesis by simp
qed

section \<open>Patterns\<close>

lemma nullable_lang: "nullable r \<longleftrightarrow> [] \<in> lang r"
  by (induction r) (auto intro: star_of.empty)

lemma star_of_cons_split:
  assumes "x \<in> star_of A" and "x = c # w"
  shows "\<exists>u v. w = u @ v \<and> c # u \<in> A \<and> v \<in> star_of A"
  using assms
proof (induction arbitrary: w rule: star_of.induct)
  case empty
  then show ?case by simp
next
  case (step u v)
  show ?case
  proof (cases u)
    case Nil
    with step show ?thesis by simp
  next
    case (Cons d u')
    with step.prems have "d = c" and "w = u' @ v" by simp_all
    with step.hyps Cons show ?thesis by blast
  qed
qed

lemma star_of_cons:
  "c # w \<in> star_of A \<longleftrightarrow> (\<exists>u v. w = u @ v \<and> c # u \<in> A \<and> v \<in> star_of A)"
proof
  assume "c # w \<in> star_of A"
  then show "\<exists>u v. w = u @ v \<and> c # u \<in> A \<and> v \<in> star_of A"
    by (rule star_of_cons_split) simp
next
  assume "\<exists>u v. w = u @ v \<and> c # u \<in> A \<and> v \<in> star_of A"
  then obtain u v where "w = u @ v" "c # u \<in> A" "v \<in> star_of A" by blast
  from star_of.step [OF this(2,3)] this(1) show "c # w \<in> star_of A" by simp
qed

lemma deriv_lang: "w \<in> lang (deriv c r) \<longleftrightarrow> c # w \<in> lang r"
proof (induction r arbitrary: w)
  case (Cat r s)
  show ?case
  proof
    assume "w \<in> lang (deriv c (Cat r s))"
    then consider (left) u v where "w = u @ v" "u \<in> lang (deriv c r)" "v \<in> lang s"
      | (right) "nullable r" "w \<in> lang (deriv c s)"
      by (auto split: if_splits)
    then show "c # w \<in> lang (Cat r s)"
    proof cases
      case left
      with Cat.IH(1) have "c # u \<in> lang r" by simp
      with left have "c # w = (c # u) @ v \<and> c # u \<in> lang r \<and> v \<in> lang s" by simp
      then have "\<exists>a b. c # w = a @ b \<and> a \<in> lang r \<and> b \<in> lang s" by blast
      then show ?thesis by simp
    next
      case right
      with Cat.IH(2) nullable_lang have "[] \<in> lang r" "c # w \<in> lang s" by simp_all
      then have "c # w = [] @ (c # w) \<and> [] \<in> lang r \<and> c # w \<in> lang s" by simp
      then have "\<exists>a b. c # w = a @ b \<and> a \<in> lang r \<and> b \<in> lang s" by blast
      then show ?thesis by simp
    qed
  next
    assume "c # w \<in> lang (Cat r s)"
    then obtain u v where uv: "c # w = u @ v" "u \<in> lang r" "v \<in> lang s" by auto
    show "w \<in> lang (deriv c (Cat r s))"
    proof (cases u)
      case Nil
      with uv have "nullable r" "w \<in> lang (deriv c s)"
        by (simp_all add: nullable_lang Cat.IH(2))
      then show ?thesis by simp
    next
      case (Cons d u')
      with uv have w: "w = u' @ v" and "c # u' \<in> lang r" by simp_all
      then have "u' \<in> lang (deriv c r)" by (simp add: Cat.IH(1))
      with w uv(3) show ?thesis by auto
    qed
  qed
next
  case (Star r)
  have "w \<in> lang (deriv c (Star r)) \<longleftrightarrow>
        (\<exists>u v. w = u @ v \<and> c # u \<in> lang r \<and> v \<in> star_of (lang r))"
    by (auto simp: Star.IH)
  then show ?case by (simp add: star_of_cons)
qed auto

lemma match_prefix_lang: "match_prefix r s \<longleftrightarrow> (\<exists>p q. s = p @ q \<and> p \<in> lang r)"
proof (induction s arbitrary: r)
  case Nil
  show ?case by (simp add: nullable_lang)
next
  case (Cons c cs)
  show ?case
  proof
    assume "match_prefix r (c # cs)"
    then consider "nullable r" | "match_prefix (deriv c r) cs" by auto
    then show "\<exists>p q. c # cs = p @ q \<and> p \<in> lang r"
    proof cases
      case 1
      then have "c # cs = [] @ (c # cs) \<and> [] \<in> lang r" by (simp add: nullable_lang)
      then show ?thesis by blast
    next
      case 2
      with Cons.IH obtain p q where "cs = p @ q" "p \<in> lang (deriv c r)" by blast
      then have "c # cs = (c # p) @ q \<and> c # p \<in> lang r" by (simp add: deriv_lang)
      then show ?thesis by blast
    qed
  next
    assume "\<exists>p q. c # cs = p @ q \<and> p \<in> lang r"
    then obtain p q where pq: "c # cs = p @ q" "p \<in> lang r" by blast
    show "match_prefix r (c # cs)"
    proof (cases p)
      case Nil
      with pq have "nullable r" by (simp add: nullable_lang)
      then show ?thesis by simp
    next
      case (Cons d p')
      with pq have "cs = p' @ q" "p' \<in> lang (deriv c r)" by (simp_all add: deriv_lang)
      with Cons.IH have "match_prefix (deriv c r) cs" by blast
      then show ?thesis by simp
    qed
  qed
qed

lemma star_of_dot: "star_of (lang Dot) = {v. newline \<notin> set v}"
proof (intro set_eqI iffI)
  fix v assume "v \<in> star_of (lang Dot)"
  then show "v \<in> {v. newline \<notin> set v}"
    by (induction rule: star_of.induct) auto
next
  fix v :: string assume "v \<in> {v. newline \<notin> set v}"
  then show "v \<in> star_of (lang Dot)"
  proof (induction v)
    case Nil
    show ?case by (rule star_of.empty)
  next
    case (Cons c v)
    then have "[c] \<in> lang Dot" "v \<in> star_of (lang Dot)" by auto
    from star_of.step [OF this] show ?case by simp
  qed
qed

lemma lang_cat_list_lits: "lang (cat_list (map Lit S @ rs)) = {S @ v | v. v \<in> lang (cat_list rs)}"
  by (induction S) auto

lemma parse_plain:
  "plain S \<Longrightarrow> parse_re cur stack (S @ rest) = parse_re (rev (map Lit S) @ cur) stack rest"
proof (induction S arbitrary: cur)
  case Nil
  show ?case by simp
next
  case (Cons c S)
  then have c: "c \<noteq> CHR ''(''" "c \<noteq> CHR '')''" "c \<noteq> CHR ''*''" "c \<noteq> CHR ''.''" "c \<notin> other_special"
    and S: "plain S"
    by (auto simp: plain_def special_chars_def)
  from Cons.IH [OF S, of "Lit c # cur"] c show ?case by simp
qed

lemma parse_wrapped:
  assumes "plain S"
  shows "parse_re [] [] (''.*'' @ S @ ''.*'') = Inr (cat_list (Star Dot # map Lit S @ [Star Dot]))"
proof -
  have "parse_re [] [] (''.*'' @ S @ ''.*'') = parse_re [Star Dot] [] (S @ ''.*'')"
    by simp
  also have "\<dots> = parse_re (rev (map Lit S) @ [Star Dot]) [] ''.*''"
    by (rule parse_plain [OF assms])
  also have "\<dots> = Inr (cat_list (Star Dot # map Lit S @ [Star Dot]))"
    by (cases "rev (map Lit S)") simp_all
  finally show ?thesis .
qed

lemma wrapped_lang:
  "lang (cat_list (Star Dot # map Lit S @ [Star Dot])) =
     {u @ S @ v | u v. newline \<notin> set u \<and> newline \<notin> set v}"
proof -
  have "lang (cat_list [Star Dot]) = {v. newline \<notin> set v}"
    using star_of_dot by simp
  then have "lang (cat_list (map Lit S @ [Star Dot])) = {S @ v | v. newline \<notin> set v}"
    by (simp add: lang_cat_list_lits del: lang.simps)
  then show ?thesis using star_of_dot by auto
qed

lemma match_wrapped:
  "match_prefix (cat_list (Star Dot # map Lit S @ [Star Dot])) x \<longleftrightarrow>
     (\<exists>u v. x = u @ S @ v \<and> newline \<notin> set u)"
proof
  assume "match_prefix (cat_list (Star Dot # map Lit S @ [Star Dot])) x"
  then obtain p q where "x = p @ q" "p \<in> lang (cat_list (Star Dot # map Lit S @ [Star Dot]))"
    unfolding match_prefix_lang by blast
  then obtain u v where "x = u @ S @ (v @ q)" "newline \<notin> set u"
    unfolding wrapped_lang by auto
  then show "\<exists>u v. x = u @ S @ v \<and> newline \<notin> set u" by blast
next
  assume "\<exists>u v. x = u @ S @ v \<and> newline \<notin> set u"
  then obtain u v where uv: "x = u @ S @ v" "newline \<notin> set u" by blast
  then have "u @ S @ [] \<in> lang (cat_list (Star Dot # map Lit S @ [Star Dot]))"
    unfolding wrapped_lang by fastforce
  with uv have "x = (u @ S) @ v \<and> u @ S \<in> lang (cat_list (Star Dot # map Lit S @ [Star Dot]))"
    by simp
  then show "match_prefix (cat_list (Star Dot # map Lit S @ [Star Dot])) x"
    unfolding match_prefix_lang by blast
qed

lemma plain_not_star: "plain S \<Longrightarrow> S \<noteq> ''*''"
  by (auto simp: plain_def special_chars_def)

lemma field_matches_plain_iff:
  assumes "plain S"
  shows "field_matches (JString S) x = Inr (\<exists>u v. x = u @ S @ v \<and> newline \<notin> set u)"
proof -
  from plain_not_star [OF assms]
  have "to_pattern (JString S) = Inr (''.*'' @ S @ ''.*'')" by simp
  moreover have "re_match (''.*'' @ S @ ''.*'') x =
      Inr (match_prefix (cat_list (Star Dot # map Lit S @ [Star Dot])) x)"
    unfolding re_match_def parse_wrapped [OF assms] by simp
  ultimately show ?thesis
    unfolding field_matches_def match_wrapped by simp
qed

lemma sublist_no_newline:
  assumes "newline \<notin> set x"
  shows "(\<exists>u v. x = u @ S @ v \<and> newline \<notin> set u) \<longleftrightarrow> sublist S x"
  using assms by (auto simp: sublist_def)

lemma field_matches_star: "field_matches (JString ''*'') x = Inr True"
  by (cases x) (simp_all add: field_matches_def re_match_def)

lemma rule_matches_fields:
  assumes "is_str (field_value kvs ''class'')" and "is_str (field_value kvs ''title'')"
  shows "rule_matches (JObject kvs) w =
           (case field_matches (field_value kvs ''class'') (cls w) of
              Inl e \<Rightarrow> Inl e
            | Inr b \<Rightarrow> if b then field_matches (field_value kvs ''title'') (title w) else Inr False)"
  using assms
  by (cases "field_value kvs ''class''"; cases "field_value kvs ''title''")
     (auto simp: field_matches_def split: sum.splits bool.splits)

section \<open>Rule detection\<close>

lemma split_skip:
  assumes "\<not> Q a" and "P a"
  shows "(\<exists>pre r post. a # xs = pre @ r # post \<and> (\<forall>p\<in>set pre. P p) \<and> Q r) \<longleftrightarrow>
         (\<exists>pre r post. xs = pre @ r # post \<and> (\<forall>p\<in>set pre. P p) \<and> Q r)"
proof
  assume "\<exists>pre r post. a # xs = pre @ r # post \<and> (\<forall>p\<in>set pre. P p) \<and> Q r"
  then obtain pre r post where eq: "a # xs = pre @ r # post"
    and pre: "\<forall>p\<in>set pre. P p" and r: "Q r" by blast
  show "\<exists>pre r post. xs = pre @ r # post \<and> (\<forall>p\<in>set pre. P p) \<and> Q r"
  proof (cases pre)
    case Nil
    with eq r assms(1) show ?thesis by simp
  next
    case (Cons b pre')
    with eq pre have "xs = pre' @ r # post \<and> (\<forall>p\<in>set pre'. P p)" by simp
    with r show ?thesis by blast
  qed
next
  assume "\<exists>pre r post. xs = pre @ r # post \<and> (\<forall>p\<in>set pre. P p) \<and> Q r"
  then obtain pre r post where "xs = pre @ r # post" "\<forall>p\<in>set pre. P p" "Q r" by blast
  with assms(2) have "a # xs = (a # pre) @ r # post \<and> (\<forall>p\<in>set (a # pre). P p) \<and> Q r"
    by simp
  then show "\<exists>pre r post. a # xs = pre @ r # post \<and> (\<forall>p\<in>set pre. P p) \<and> Q r"
    by blast
qed

lemma split_stop:
  assumes "\<not> P a"
  shows "(\<exists>pre r post. a # xs = pre @ r # post \<and> (\<forall>p\<in>set pre. P p) \<and> Q r) \<longleftrightarrow> Q a"
proof
  assume "\<exists>pre r post. a # xs = pre @ r # post \<and> (\<forall>p\<in>set pre. P p) \<and> Q r"
  then obtain pre r post where eq: "a # xs = pre @ r # post"
    and pre: "\<forall>p\<in>set pre. P p" and r: "Q r" by blast
  show "Q a"
  proof (cases pre)
    case Nil
    with eq r show ?thesis by simp
  next
    case (Cons b pre')
    with eq pre assms show ?thesis by simp
  qed
next
  assume "Q a"
  then have "a # xs = [] @ a # xs \<and> (\<forall>p\<in>set []. P p) \<and> Q a" by simp
  then show "\<exists>pre r post. a # xs = pre @ r # post \<and> (\<forall>p\<in>set pre. P p) \<and> Q r"
    by blast
qed

lemma detect_rule_outcome:
  "detect_rule rules w = res \<longleftrightarrow>
     (res = Inr None \<and> (\<forall>p\<in>set rules. rule_matches p w = Inr False)) \<or>
     (\<exists>pre r post. rules = pre @ r # post \<and> (\<forall>p\<in>set pre. rule_matches p w = Inr False) \<and>
        (rule_matches r w = Inr True \<and> res = Inr (Some r) \<or>
         (\<exists>e. rule_matches r w = Inl e \<and> res = Inl e)))"
  (is "_ \<longleftrightarrow> ?none rules \<or> ?stop rules")
proof (induction rules)
  case Nil
  show ?case by auto
next
  case (Cons a rules)
  let ?P = "\<lambda>p. rule_matches p w = Inr False"
  let ?Q = "\<lambda>r. rule_matches r w = Inr True \<and> res = Inr (Some r) \<or>
         (\<exists>e. rule_matches r w = Inl e \<and> res = Inl e)"
  show ?case
  proof (cases "?P a")
    case True
    then have "\<not> ?Q a" by simp
    from split_skip [of ?Q a ?P rules, OF this True]
    have "?stop (a # rules) \<longleftrightarrow> ?stop rules" .
    moreover from True have "?none (a # rules) \<longleftrightarrow> ?none rules" by simp
    moreover from True have "detect_rule (a # rules) w = detect_rule rules w" by simp
    ultimately show ?thesis using Cons.IH by simp
  next
    case False
    from split_stop [of ?P a rules ?Q, OF False]
    have "?stop (a # rules) \<longleftrightarrow> ?Q a" .
    moreover from False have "\<not> ?none (a # rules)" by simp
    moreover from False have "detect_rule (a # rules) w = res \<longleftrightarrow> ?Q a"
      by (cases "rule_matches a w") (auto split: bool.splits)
    ultimately show ?thesis by blast
  qed
qed

section \<open>Claims on rule detection\<close>

text \<open>
  C2, as stated, fails: \<^verbatim>\<open>detect_rule\<close> does not return for every rule list.  The only rule
  of this list does not match the window, and the call raises \<^verbatim>\<open>re.error\<close> where the claim
  has it return \<^verbatim>\<open>None\<close>.
\<close>

theorem detect_rule_raises_on_bad_pattern:
  "rule_matches paren_rule shell_window \<noteq> Inr True \<and>
   detect_rule [paren_rule] shell_window = Inl ReError"
  by code_simp

text \<open>
  C2, amended.  \<^verbatim>\<open>detect_rule\<close> scans the rules in list order and stops at the first rule
  whose test does not come out false.  It returns a rule exactly when that rule's class
  and title patterns both match and every rule before it came out false; it returns
  \<^verbatim>\<open>None\<close> exactly when every rule came out false; and it raises exactly when the first rule
  that does not come out false raises (a pattern that does not compile, a rule that is not
  a dict).  Precedence is by position only.
\<close>

theorem detect_rule_first_match:
  "(detect_rule rules w = Inr (Some r) \<longleftrightarrow>
      (\<exists>pre post. rules = pre @ r # post \<and>
         (\<forall>p\<in>set pre. rule_matches p w = Inr False) \<and> rule_matches r w = Inr True)) \<and>
   (detect_rule rules w = Inr None \<longleftrightarrow> (\<forall>p\<in>set rules. rule_matches p w = Inr False)) \<and>
   (detect_rule rules w = Inl e \<longleftrightarrow>
      (\<exists>pre r post. rules = pre @ r # post \<and>
         (\<forall>p\<in>set pre. rule_matches p w = Inr False) \<and> rule_matches r w = Inl e))"
proof (intro conjI)
  show "detect_rule rules w = Inr (Some r) \<longleftrightarrow>
      (\<exists>pre post. rules = pre @ r # post \<and>
         (\<forall>p\<in>set pre. rule_matches p w = Inr False) \<and> rule_matches r w = Inr True)"
    unfolding detect_rule_outcome [of rules w "Inr (Some r)"] by auto
  show "detect_rule rules w = Inr None \<longleftrightarrow> (\<forall>p\<in>set rules. rule_matches p w = Inr False)"
    unfolding detect_rule_outcome [of rules w "Inr None"] by auto
  show "detect_rule rules w = Inl e \<longleftrightarrow>
      (\<exists>pre r post. rules = pre @ r # post \<and>
         (\<forall>p\<in>set pre. rule_matches p w = Inr False) \<and> rule_matches r w = Inl e)"
    unfolding detect_rule_outcome [of rules w "Inl e"] by auto
qed

theorem detect_rule_first_match_witness:
  "detect_rule [class_a_rule, class_a_title_b_rule] \<lparr>cls = ''a'', title = ''b''\<rparr> =
     Inr (Some class_a_rule) \<and>
   rule_matches class_a_title_b_rule \<lparr>cls = ''a'', title = ''b''\<rparr> = Inr True"
proof -
  have first: "rule_matches class_a_rule \<lparr>cls = ''a'', title = ''b''\<rparr> = Inr True"
    by code_simp
  have second: "rule_matches class_a_title_b_rule \<lparr>cls = ''a'', title = ''b''\<rparr> = Inr True"
    by code_simp
  have "[class_a_rule, class_a_title_b_rule] = [] @ class_a_rule # [class_a_title_b_rule] \<and>
      (\<forall>p\<in>set []. rule_matches p \<lparr>cls = ''a'', title = ''b''\<rparr> = Inr False) \<and>
      rule_matches class_a_rule \<lparr>cls = ''a'', title = ''b''\<rparr> = Inr True"
    using first by simp
  then have "\<exists>pre post. [class_a_rule, class_a_title_b_rule] = pre @ class_a_rule # post \<and>
      (\<forall>p\<in>set pre. rule_matches p \<lparr>cls = ''a'', title = ''b''\<rparr> = Inr False) \<and>
      rule_matches class_a_rule \<lparr>cls = ''a'', title = ''b''\<rparr> = Inr True"
    by blast
  with detect_rule_first_match [of "[class_a_rule, class_a_title_b_rule]"
      "\<lparr>cls = ''a'', title = ''b''\<rparr>" class_a_rule]
  have "detect_rule [class_a_rule, class_a_title_b_rule] \<lparr>cls = ''a'', title = ''b''\<rparr> =
     Inr (Some class_a_rule)" by blast
  with second show ?thesis by simp
qed

text \<open>
  C3, as stated, fails: the value is compiled as a regular expression.  The class
  \<^verbatim>\<open>a.c\<close> matches the window class \<^verbatim>\<open>abc\<close>, which does not contain it.
\<close>

theorem metacharacter_is_not_substring:
  "detect_rule [dot_rule] \<lparr>cls = ''abc'', title = ''t''\<rparr> = Inr (Some dot_rule) \<and>
   \<not> sublist ''a.c'' ''abc''"
  by code_simp

text \<open>
  C3, amended.  For a value \<^verbatim>\<open>S\<close> without any character that is special in a pattern, the
  field matches exactly when \<^verbatim>\<open>S\<close> occurs in the window's string with no newline before
  the occurrence; on a window string without newline that is: exactly when \<^verbatim>\<open>S\<close> is a
  substring of it, case-sensitively.  The value \<^verbatim>\<open>"*"\<close> matches every string, and an absent
  key is read as \<^verbatim>\<open>"*"\<close>.  A rule whose class and title are strings or absent matches when
  both fields do.
\<close>

theorem field_substring:
  "(plain S \<longrightarrow>
      field_matches (JString S) x = Inr (\<exists>u v. x = u @ S @ v \<and> newline \<notin> set u)) \<and>
   (plain S \<and> newline \<notin> set x \<longrightarrow> field_matches (JString S) x = Inr (sublist S x)) \<and>
   field_matches (JString ''*'') x = Inr True \<and>
   (map_of kvs key = None \<longrightarrow> field_value kvs key = JString ''*'') \<and>
   (is_str (field_value kvs ''class'') \<and> is_str (field_value kvs ''title'') \<longrightarrow>
      rule_matches (JObject kvs) w =
        (case field_matches (field_value kvs ''class'') (cls w) of
           Inl e \<Rightarrow> Inl e
         | Inr b \<Rightarrow> if b then field_matches (field_value kvs ''title'') (title w) else Inr False))"
proof (intro conjI impI)
  assume "plain S"
  then show "field_matches (JString S) x = Inr (\<exists>u v. x = u @ S @ v \<and> newline \<notin> set u)"
    by (rule field_matches_plain_iff)
next
  assume "plain S \<and> newline \<notin> set x"
  then have "plain S" and "newline \<notin> set x" by simp_all
  from field_matches_plain_iff [OF this(1), of x] sublist_no_newline [OF this(2), of S]
  show "field_matches (JString S) x = Inr (sublist S x)"
    by (simp only:)
next
  show "field_matches (JString ''*'') x = Inr True" by (rule field_matches_star)
next
  assume "map_of kvs key = None"
  then show "field_value kvs key = JString ''*''" by (simp add: field_value_def)
next
  assume "is_str (field_value kvs ''class'') \<and> is_str (field_value kvs ''title'')"
  then show "rule_matches (JObject kvs) w =
        (case field_matches (field_value kvs ''class'') (cls w) of
           Inl e \<Rightarrow> Inl e
         | Inr b \<Rightarrow> if b then field_matches (field_value kvs ''title'') (title w) else Inr False)"
    using rule_matches_fields by blast
qed

theorem field_substring_witness:
  "field_matches (JString ''README'') ''my-README-file'' = Inr True \<and>
   rule_matches readme_rule \<lparr>cls = ''any'', title = ''README.md''\<rparr> = Inr True"
proof -
  let ?kvs = "[(''title'', JString ''README''), (''layer'', JString ''docs'')]"
  let ?w = "\<lparr>cls = ''any'', title = ''README.md''\<rparr>"
  have p: "plain ''README''" by code_simp
  have n1: "newline \<notin> set ''my-README-file''" by code_simp
  have n2: "newline \<notin> set ''README.md''" by code_simp
  have s1: "sublist ''README'' ''my-README-file''" by code_simp
  have s2: "sublist ''README'' ''README.md''" by code_simp
  have absent: "map_of ?kvs ''class'' = None" by simp
  have tv: "field_value ?kvs ''title'' = JString ''README''" by (simp add: field_value_def)
  from field_substring [of "''README''" "''my-README-file''", THEN conjunct2, THEN conjunct1]
    p n1
  have "field_matches (JString ''README'') ''my-README-file'' =
      Inr (sublist ''README'' ''my-README-file'')" by blast
  with s1 have a: "field_matches (JString ''README'') ''my-README-file'' = Inr True"
    by (simp only:)
  from field_substring [of "''README''" "''README.md''", THEN conjunct2, THEN conjunct1] p n2
  have "field_matches (JString ''README'') ''README.md'' = Inr (sublist ''README'' ''README.md'')"
    by blast
  with s2 have b: "field_matches (JString ''README'') ''README.md'' = Inr True"
    by (simp only:)
  note rest = field_substring [of "''README''" "''any''" ?kvs "''class''" ?w,
      THEN conjunct2, THEN conjunct2]
  from rest have c: "field_matches (JString ''*'') ''any'' = Inr True" by (rule conjunct1)
  from rest absent have cv: "field_value ?kvs ''class'' = JString ''*''" by blast
  from cv tv have "is_str (field_value ?kvs ''class'') \<and> is_str (field_value ?kvs ''title'')"
    by simp
  with rest have "rule_matches (JObject ?kvs) ?w =
        (case field_matches (field_value ?kvs ''class'') (cls ?w) of
           Inl e \<Rightarrow> Inl e
         | Inr b \<Rightarrow> if b then field_matches (field_value ?kvs ''title'') (title ?w)
                    else Inr False)"
    by blast
  with cv c have "rule_matches (JObject ?kvs) ?w =
      field_matches (field_value ?kvs ''title'') (title ?w)"
    by simp
  with tv b have "rule_matches readme_rule ?w = Inr True" by (simp add: readme_rule_def)
  with a show ?thesis by simp
qed



section \<open>Validation\<close>

lemma validate_rules_first_failure:
  assumes "i < length rs"
    and "\<forall>j<i. validate_rule layers (n + j + 1) (rs ! j) = None"
    and "validate_rule layers (n + i + 1) (rs ! i) = Some e"
  shows "validate_rules layers n rs = Inl e"
  using assms
proof (induction rs arbitrary: n i)
  case Nil
  then show ?case by simp
next
  case (Cons r rs)
  show ?case
  proof (cases i)
    case 0
    with Cons.prems show ?thesis by simp
  next
    case (Suc k)
    with Cons.prems have head: "validate_rule layers (n + 1) r = None"
      by (auto dest: spec [of _ 0])
    from Suc Cons.prems have k: "k < length rs" by simp
    have earlier: "\<forall>j<k. validate_rule layers (Suc n + j + 1) (rs ! j) = None"
    proof (intro allI impI)
      fix j assume "j < k"
      with Suc have "Suc j < i" by simp
      with Cons.prems(2) have "validate_rule layers (n + Suc j + 1) ((r # rs) ! Suc j) = None"
        by blast
      then show "validate_rule layers (Suc n + j + 1) (rs ! j) = None" by simp
    qed
    from Suc Cons.prems(3) have "validate_rule layers (Suc n + k + 1) (rs ! k) = Some e"
      by simp
    from Cons.IH [OF k earlier this] head show ?thesis by simp
  qed
qed

lemma validate_first_failure:
  assumes "i < length rs"
    and "\<forall>j<i. validate_rule layers (j + 1) (rs ! j) = None"
    and "validate_rule layers (i + 1) (rs ! i) = Some e"
  shows "validate layers (JArray rs) = Inl e"
  using validate_rules_first_failure [of i rs layers 0 e] assms
  by (simp add: validate_def)

lemma check_strings_bad:
  assumes "key \<in> set keys" and "map_of kvs key = Some v"
    and "v \<noteq> JBool False" and "v \<noteq> JNull" and "not_str_or_blank v"
  shows "\<exists>key'. check_strings keys kvs n = Some (SystemExit (BadStringValue key' n))"
  using assms(1)
proof (induction keys)
  case Nil
  then show ?case by simp
next
  case (Cons k keys)
  show ?case
  proof (cases "check_strings (k # keys) kvs n = check_strings keys kvs n")
    case True
    from Cons.prems have "key = k \<or> key \<in> set keys" by simp
    then show ?thesis
    proof
      assume "key = k"
      with assms(2-5) have "check_strings (k # keys) kvs n = Some (SystemExit (BadStringValue k n))"
        by simp
      then show ?thesis by blast
    next
      assume "key \<in> set keys"
      with Cons.IH True show ?thesis by simp
    qed
  next
    case False
    then have "check_strings (k # keys) kvs n = Some (SystemExit (BadStringValue k n))"
      by (auto split: option.splits if_splits)
    then show ?thesis by blast
  qed
qed

lemma validate_rule_unexpected:
  "\<not> fst ` set kvs \<subseteq> allowed_rule_keys \<Longrightarrow>
   validate_rule layers n (JObject kvs) = Some (SystemExit (UnexpectedKeys n))"
  by simp

lemma validate_rule_empty:
  "validate_rule layers n (JObject []) = Some (SystemExit (NotNonEmptyObject n))"
  by simp

lemma validate_rule_bad_string:
  assumes "fst ` set kvs \<subseteq> allowed_rule_keys"
    and "key \<in> set [''class'', ''title'', ''layer'', ''cmd'']" and "map_of kvs key = Some v"
    and "v \<noteq> JBool False" and "v \<noteq> JNull" and "not_str_or_blank v"
  shows "\<exists>key'. validate_rule layers n (JObject kvs) = Some (SystemExit (BadStringValue key' n))"
proof -
  from check_strings_bad [OF assms(2-6)] obtain key' where
    "check_strings [''class'', ''title'', ''layer'', ''cmd''] kvs n =
       Some (SystemExit (BadStringValue key' n))" by blast
  with assms(1) have "validate_rule layers n (JObject kvs) = Some (SystemExit (BadStringValue key' n))"
    by simp
  then show ?thesis by blast
qed

lemma validate_rule_schema:
  assumes "\<not> fst ` set kvs \<subseteq> allowed_rule_keys \<or> kvs = [] \<or>
      (\<exists>key\<in>set [''class'', ''title'', ''layer'', ''cmd'']. \<exists>v. map_of kvs key = Some v \<and>
          v \<noteq> JBool False \<and> v \<noteq> JNull \<and> not_str_or_blank v)"
  shows "\<exists>m. validate_rule layers n (JObject kvs) = Some (SystemExit m) \<and> rule_no_of m = Some n"
proof (cases "fst ` set kvs \<subseteq> allowed_rule_keys")
  case False
  then show ?thesis by (simp add: validate_rule_unexpected)
next
  case allowed: True
  show ?thesis
  proof (cases "\<exists>key\<in>set [''class'', ''title'', ''layer'', ''cmd'']. \<exists>v. map_of kvs key = Some v \<and>
          v \<noteq> JBool False \<and> v \<noteq> JNull \<and> not_str_or_blank v")
    case True
    then obtain key v where "key \<in> set [''class'', ''title'', ''layer'', ''cmd'']"
      "map_of kvs key = Some v" "v \<noteq> JBool False" "v \<noteq> JNull" "not_str_or_blank v" by blast
    from validate_rule_bad_string [OF allowed this, of layers n] obtain key' where
      "validate_rule layers n (JObject kvs) = Some (SystemExit (BadStringValue key' n))" by blast
    then show ?thesis by simp
  next
    case False
    with assms allowed have "kvs = []" by blast
    then show ?thesis by simp
  qed
qed


lemma validate_rule_late:
  assumes "kvs \<noteq> []" and "fst ` set kvs \<subseteq> allowed_rule_keys"
    and "check_strings [''class'', ''title'', ''layer'', ''cmd''] kvs n = None"
  shows "validate_rule layers n (JObject kvs) =
     (case check_fake_key (case map_of kvs ''fake_key'' of None \<Rightarrow> JNull | Some v \<Rightarrow> v) n of
        Some e \<Rightarrow> Some e
      | None \<Rightarrow>
          (case check_set_mouse (case map_of kvs ''set_mouse'' of None \<Rightarrow> JNull | Some v \<Rightarrow> v) n of
             Some e \<Rightarrow> Some e
           | None \<Rightarrow>
               check_layer layers (case map_of kvs ''layer'' of None \<Rightarrow> JNull | Some v \<Rightarrow> v) n))"
  using assms by (simp del: check_strings.simps)

lemma check_fake_key_not_strings:
  assumes "truthy fk" and "\<not> (\<exists>xs. fk = JArray xs \<and> list_all is_str xs)"
  shows "check_fake_key fk n = Some (SystemExit (FakeKeyNotStrings n))"
  using assms by (cases fk) (auto simp: check_fake_key_def)

lemma check_fake_key_bad_action:
  assumes "\<not> is_blank name" and "capitalize action \<notin> valid_actions" and "n \<noteq> 0"
  shows "check_fake_key (JArray [JString name, JString action]) n =
           Some (SystemExit (FakeKeyBadAction (Some n)))"
  using assms by (simp add: check_fake_key_def validate_fake_key_def)

lemma check_set_mouse_not_ints:
  assumes "truthy sm" and "\<not> (\<exists>xs. sm = JArray xs \<and> list_all is_int xs)"
  shows "check_set_mouse sm n = Some (SystemExit (SetMouseNotInts n))"
  using assms by (cases sm) (auto simp: check_set_mouse_def)

text \<open>A rule that is not a dict never reaches the test for a non-empty object:
  \<^verbatim>\<open>rule.get\<close> raises first, and no diagnostic names the rule.\<close>

lemma non_object_rule_raises:
  "validate known_layers (JArray [JString ''abc'']) = Inl AttributeError"
  by code_simp

text \<open>What is left out of the statements on \<^verbatim>\<open>fake_key\<close> below: a list of strings of the wrong
  length fails in the tuple unpacking, and the diagnostic for a blank name carries no rule
  number; a falsy value is skipped.\<close>

lemma fake_key_other_outcomes:
  "validate known_layers
     (JArray [JObject [(''class'', JString ''game''), (''fake_key'', JArray [JString ''Space''])]]) =
     Inl ValueError \<and>
   validate known_layers
     (JArray [JObject [(''class'', JString ''game''),
                       (''fake_key'', JArray [JString [], JString ''hold''])]]) =
     Inl (SystemExit FakeKeyBlankName) \<and>
   rule_no_of FakeKeyBlankName = None \<and>
   validate known_layers
     (JArray [JObject [(''class'', JString ''game''), (''fake_key'', JBool False)]]) = Inr ()"
  by code_simp

text \<open>
  C6, as stated, fails: a value \<^verbatim>\<open>null\<close> is neither a non-blank string nor \<^verbatim>\<open>false\<close> nor
  absent, and the rule \<^verbatim>\<open>{"class": null, "layer": "base"}\<close> passes validation.
\<close>

theorem null_value_accepted:
  "validate known_layers (JArray [null_class_rule]) = Inr ()"
  by code_simp

text \<open>
  C6, amended.  Let the rules before rule number \<^verbatim>\<open>i + 1\<close> pass and let that rule be a JSON
  object.  Validation exits with a diagnostic that names the number \<^verbatim>\<open>i + 1\<close> when the
  object has a key outside \<^verbatim>\<open>class, title, layer, fake_key, set_mouse, cmd\<close>, when it is
  empty, or when the value of \<^verbatim>\<open>class\<close>, \<^verbatim>\<open>title\<close>, \<^verbatim>\<open>layer\<close> or \<^verbatim>\<open>cmd\<close> is neither a
  non-blank string nor \<^verbatim>\<open>false\<close> nor \<^verbatim>\<open>null\<close> (a blank or empty string, a number, \<^verbatim>\<open>true\<close>, a
  list, an object).
\<close>

theorem schema_rejection:
  assumes "i < length rs"
    and "\<forall>j<i. validate_rule layers (j + 1) (rs ! j) = None"
    and "rs ! i = JObject kvs"
    and "\<not> fst ` set kvs \<subseteq> allowed_rule_keys \<or> kvs = [] \<or>
      (\<exists>key\<in>set [''class'', ''title'', ''layer'', ''cmd'']. \<exists>v. map_of kvs key = Some v \<and>
          v \<noteq> JBool False \<and> v \<noteq> JNull \<and> not_str_or_blank v)"
  shows "\<exists>m. validate layers (JArray rs) = Inl (SystemExit m) \<and> rule_no_of m = Some (i + 1)"
proof -
  from validate_rule_schema [OF assms(4), of layers "i + 1"] assms(3) obtain m where
    m: "validate_rule layers (i + 1) (rs ! i) = Some (SystemExit m)" "rule_no_of m = Some (i + 1)"
    by auto
  from validate_first_failure [OF assms(1,2) m(1)] m(2) show ?thesis by blast
qed

theorem schema_rejection_witness:
  "validate known_layers (JArray [media_rule, blank_class_rule]) =
     Inl (SystemExit (BadStringValue ''class'' 2)) \<and>
   (\<exists>m. validate known_layers (JArray [media_rule, blank_class_rule]) = Inl (SystemExit m) \<and>
        rule_no_of m = Some 2)"
proof -
  let ?kvs = "[(''class'', JString ''  ''), (''layer'', JString ''base'')]"
  have run: "validate known_layers (JArray [media_rule, blank_class_rule]) =
     Inl (SystemExit (BadStringValue ''class'' 2))"
    by code_simp
  have len: "(1::nat) < length [media_rule, blank_class_rule]" by simp
  have first: "validate_rule known_layers 1 media_rule = None" by code_simp
  then have earlier: "\<forall>j<1. validate_rule known_layers (j + 1) ([media_rule, blank_class_rule] ! j) = None"
    by simp
  have at: "[media_rule, blank_class_rule] ! 1 = JObject ?kvs"
    by (simp add: blank_class_rule_def)
  have blank: "not_str_or_blank (JString ''  '')" by code_simp
  then have bad: "\<not> fst ` set ?kvs \<subseteq> allowed_rule_keys \<or> ?kvs = [] \<or>
      (\<exists>key\<in>set [''class'', ''title'', ''layer'', ''cmd'']. \<exists>v. map_of ?kvs key = Some v \<and>
          v \<noteq> JBool False \<and> v \<noteq> JNull \<and> not_str_or_blank v)"
    by simp
  have two: "(1::nat) + 1 = 2" by simp
  from schema_rejection [OF len earlier at bad]
  have "\<exists>m. validate known_layers (JArray [media_rule, blank_class_rule]) = Inl (SystemExit m) \<and>
        rule_no_of m = Some 2" unfolding two .
  with run show ?thesis by blast
qed

text \<open>
  C7, as stated, fails: validation does not look at the length of \<^verbatim>\<open>set_mouse\<close>.  The
  three-element array \<^verbatim>\<open>[1, 2, 3]\<close> passes.
\<close>

theorem long_set_mouse_accepted:
  "validate known_layers (JArray [long_mouse_rule]) = Inr ()"
  by code_simp

text \<open>
  C7, amended.  Let the rules before rule number \<^verbatim>\<open>i + 1\<close> pass and let that rule be a
  non-empty object with allowed keys and valid string fields.  Validation exits with a
  diagnostic that names the number \<^verbatim>\<open>i + 1\<close> when \<^verbatim>\<open>fake_key\<close> is truthy and not an array
  of strings; when \<^verbatim>\<open>fake_key\<close> is a pair of strings with a non-blank name whose action,
  capitalized, is none of \<^verbatim>\<open>Press, Release, Tap, Toggle\<close>; and, \<^verbatim>\<open>fake_key\<close> being absent,
  falsy or valid, when \<^verbatim>\<open>set_mouse\<close> is truthy and not an array of integers (booleans count
  as integers).
\<close>

theorem fake_key_set_mouse_rejection:
  assumes "i < length rs"
    and "\<forall>j<i. validate_rule layers (j + 1) (rs ! j) = None"
    and "rs ! i = JObject kvs" and "kvs \<noteq> []" and "fst ` set kvs \<subseteq> allowed_rule_keys"
    and "check_strings [''class'', ''title'', ''layer'', ''cmd''] kvs (i + 1) = None"
  shows "(\<forall>fk. map_of kvs ''fake_key'' = Some fk \<and> truthy fk \<and>
            \<not> (\<exists>xs. fk = JArray xs \<and> list_all is_str xs) \<longrightarrow>
            validate layers (JArray rs) = Inl (SystemExit (FakeKeyNotStrings (i + 1)))) \<and>
         (\<forall>name action. map_of kvs ''fake_key'' = Some (JArray [JString name, JString action]) \<and>
            \<not> is_blank name \<and> capitalize action \<notin> valid_actions \<longrightarrow>
            validate layers (JArray rs) = Inl (SystemExit (FakeKeyBadAction (Some (i + 1))))) \<and>
         (\<forall>sm. check_fake_key (case map_of kvs ''fake_key'' of None \<Rightarrow> JNull | Some v \<Rightarrow> v)
                 (i + 1) = None \<and>
            map_of kvs ''set_mouse'' = Some sm \<and> truthy sm \<and>
            \<not> (\<exists>xs. sm = JArray xs \<and> list_all is_int xs) \<longrightarrow>
            validate layers (JArray rs) = Inl (SystemExit (SetMouseNotInts (i + 1))))"
proof (intro conjI allI impI)
  note late = validate_rule_late [OF assms(4-6), of layers]
  {
    fix fk
    assume a: "map_of kvs ''fake_key'' = Some fk \<and> truthy fk \<and>
      \<not> (\<exists>xs. fk = JArray xs \<and> list_all is_str xs)"
    then have "check_fake_key fk (i + 1) = Some (SystemExit (FakeKeyNotStrings (i + 1)))"
      by (simp add: check_fake_key_not_strings)
    with a late assms(3)
    have "validate_rule layers (i + 1) (rs ! i) = Some (SystemExit (FakeKeyNotStrings (i + 1)))"
      by simp
    from validate_first_failure [OF assms(1,2) this]
    show "validate layers (JArray rs) = Inl (SystemExit (FakeKeyNotStrings (i + 1)))" .
  next
    fix name action
    assume a: "map_of kvs ''fake_key'' = Some (JArray [JString name, JString action]) \<and>
      \<not> is_blank name \<and> capitalize action \<notin> valid_actions"
    then have "check_fake_key (JArray [JString name, JString action]) (i + 1) =
        Some (SystemExit (FakeKeyBadAction (Some (i + 1))))"
      by (simp add: check_fake_key_bad_action)
    with a late assms(3)
    have "validate_rule layers (i + 1) (rs ! i) =
        Some (SystemExit (FakeKeyBadAction (Some (i + 1))))"
      by simp
    from validate_first_failure [OF assms(1,2) this]
    show "validate layers (JArray rs) = Inl (SystemExit (FakeKeyBadAction (Some (i + 1))))" .
  next
    fix sm
    assume a: "check_fake_key (case map_of kvs ''fake_key'' of None \<Rightarrow> JNull | Some v \<Rightarrow> v)
                 (i + 1) = None \<and>
            map_of kvs ''set_mouse'' = Some sm \<and> truthy sm \<and>
            \<not> (\<exists>xs. sm = JArray xs \<and> list_all is_int xs)"
    then have "check_set_mouse sm (i + 1) = Some (SystemExit (SetMouseNotInts (i + 1)))"
      by (simp add: check_set_mouse_not_ints)
    with a late assms(3)
    have "validate_rule layers (i + 1) (rs ! i) = Some (SystemExit (SetMouseNotInts (i + 1)))"
      by simp
    from validate_first_failure [OF assms(1,2) this]
    show "validate layers (JArray rs) = Inl (SystemExit (SetMouseNotInts (i + 1)))" .
  }
qed

theorem fake_key_set_mouse_rejection_witness:
  "validate known_layers (JArray [media_rule, string_key_rule]) =
     Inl (SystemExit (FakeKeyNotStrings 2)) \<and>
   validate known_layers (JArray [media_rule, smash_rule]) =
     Inl (SystemExit (FakeKeyBadAction (Some 2))) \<and>
   validate known_layers (JArray [media_rule, mixed_mouse_rule]) =
     Inl (SystemExit (SetMouseNotInts 2))"
proof -
  have two: "(1::nat) + 1 = 2" by simp
  have first: "validate_rule known_layers 1 media_rule = None" by code_simp
  have earlier: "\<forall>j<1. validate_rule known_layers (j + 1) ([media_rule, r] ! j) = None" for r
    using first by simp
  have len: "(1::nat) < length [media_rule, r]" for r :: json by simp
  let ?a = "[(''class'', JString ''game''), (''fake_key'', JString ''Space'')]"
  let ?b = "[(''class'', JString ''game''),
             (''fake_key'', JArray [JString ''Shoot'', JString ''smash''])]"
  let ?c = "[(''class'', JString ''gimp''), (''set_mouse'', JArray [JInt 1, JString ''2''])]"
  have sa: "check_strings [''class'', ''title'', ''layer'', ''cmd''] ?a (1 + 1) = None"
    by code_simp
  have sb: "check_strings [''class'', ''title'', ''layer'', ''cmd''] ?b (1 + 1) = None"
    by code_simp
  have sc: "check_strings [''class'', ''title'', ''layer'', ''cmd''] ?c (1 + 1) = None"
    by code_simp
  have ka: "fst ` set ?a \<subseteq> allowed_rule_keys" by (simp add: allowed_rule_keys_def)
  have kb: "fst ` set ?b \<subseteq> allowed_rule_keys" by (simp add: allowed_rule_keys_def)
  have kc: "fst ` set ?c \<subseteq> allowed_rule_keys" by (simp add: allowed_rule_keys_def)
  have name: "\<not> is_blank ''Shoot''" by code_simp
  have action: "capitalize ''smash'' \<notin> valid_actions" by code_simp
  have nofk: "check_fake_key (case map_of ?c ''fake_key'' of None \<Rightarrow> JNull | Some v \<Rightarrow> v) (1 + 1) =
      None"
    by (simp add: check_fake_key_def)
  have ata: "[media_rule, string_key_rule] ! 1 = JObject ?a" by (simp add: string_key_rule_def)
  have atb: "[media_rule, smash_rule] ! 1 = JObject ?b" by (simp add: smash_rule_def)
  have atc: "[media_rule, mixed_mouse_rule] ! 1 = JObject ?c" by (simp add: mixed_mouse_rule_def)
  have na: "?a \<noteq> []" and nb: "?b \<noteq> []" and nc: "?c \<noteq> []" by simp_all
  from fake_key_set_mouse_rejection [OF len earlier ata na ka sa]
  have a: "validate known_layers (JArray [media_rule, string_key_rule]) =
     Inl (SystemExit (FakeKeyNotStrings 2))"
    unfolding two by simp
  from fake_key_set_mouse_rejection [OF len earlier atb nb kb sb] name action
  have b: "validate known_layers (JArray [media_rule, smash_rule]) =
     Inl (SystemExit (FakeKeyBadAction (Some 2)))"
    unfolding two by simp
  from fake_key_set_mouse_rejection [OF len earlier atc nc kc sc] nofk
  have c: "validate known_layers (JArray [media_rule, mixed_mouse_rule]) =
     Inl (SystemExit (SetMouseNotInts 2))"
    unfolding two by simp
  from a b c show ?thesis by simp
qed

end
